theory Spec2Isabelle
  imports Main "HOL-Library.Sublist"
begin

section \<open>Python strings\<close>

text \<open>
  A Python \<open>str\<close> is a sequence of Unicode code points and \<open>len\<close> counts code points,
  so a string is modelled as a list of code points (natural numbers). \<open>py\<close> turns an
  ASCII literal into such a list.
\<close>

type_synonym pychar = nat
type_synonym pystr = "pychar list"

definition py :: "string \<Rightarrow> pystr" where
  "py s = map of_char s"

abbreviation TAB :: pychar where "TAB \<equiv> 9"
abbreviation LF :: pychar where "LF \<equiv> 10"
abbreviation CR :: pychar where "CR \<equiv> 13"
abbreviation SP :: pychar where "SP \<equiv> 32"

text \<open>
  The code points that \<open>str.strip()\<close> and \<open>str.split()\<close> treat as whitespace
  (those for which \<open>str.isspace\<close> holds).
\<close>

definition is_space :: "pychar \<Rightarrow> bool" where
  "is_space c \<longleftrightarrow>
     (9 \<le> c \<and> c \<le> 13) \<or> (28 \<le> c \<and> c \<le> 32) \<or> c = 133 \<or> c = 160 \<or> c = 5760 \<or>
     (8192 \<le> c \<and> c \<le> 8202) \<or> c = 8232 \<or> c = 8233 \<or> c = 8239 \<or> c = 8287 \<or> c = 12288"

definition lstrip :: "pystr \<Rightarrow> pystr" where
  "lstrip s = dropWhile is_space s"

definition rstrip :: "pystr \<Rightarrow> pystr" where
  "rstrip s = rev (dropWhile is_space (rev s))"

definition strip :: "pystr \<Rightarrow> pystr" where
  "strip s = rstrip (lstrip s)"

text \<open>\<open>s[:n]\<close> for any integer \<open>n\<close>: a negative \<open>n\<close> counts from the end.\<close>

definition slice_to :: "'a list \<Rightarrow> int \<Rightarrow> 'a list" where
  "slice_to s n = (if 0 \<le> n then take (nat n) s else take (nat (int (length s) + n)) s)"

text \<open>\<open>sep.join(parts)\<close>.\<close>

fun join :: "pystr \<Rightarrow> pystr list \<Rightarrow> pystr" where
  "join sep [] = []"
| "join sep [x] = x"
| "join sep (x # y # ys) = x @ sep @ join sep (y # ys)"

text \<open>\<open>sum(len(t) for t in texts)\<close>.\<close>

definition sum_len :: "pystr list \<Rightarrow> int" where
  "sum_len texts = int (sum_list (map length texts))"

text \<open>\<open>str(n)\<close> for an integer: its decimal digits, with a minus sign when negative.\<close>

function str_nat :: "nat \<Rightarrow> pystr" where
  "str_nat n = (if n < 10 then [48 + n] else str_nat (n div 10) @ [48 + n mod 10])"
  by pat_completeness auto
termination
  by (relation "measure id") auto

declare str_nat.simps [simp del]

definition str_int :: "int \<Rightarrow> pystr" where
  "str_int i = (if i < 0 then 45 # str_nat (nat (- i)) else str_nat (nat i))"

section \<open>Whitespace normalisation: \<open>clean_text\<close>\<close>

text \<open>
  \<open>re.sub(r"[ \t]+", " ", text)\<close>: scanning from the left, every maximal run of spaces
  and tabs is one match and is replaced by a single space.
\<close>

definition is_blank :: "pychar \<Rightarrow> bool" where
  "is_blank c \<longleftrightarrow> c = SP \<or> c = TAB"

function sub_spaces :: "pystr \<Rightarrow> pystr" where
  "sub_spaces [] = []"
| "sub_spaces (c # cs) =
     (if is_blank c then SP # sub_spaces (dropWhile is_blank cs)
      else c # sub_spaces cs)"
  by pat_completeness auto
termination
  by (relation "measure length") (auto simp: le_imp_less_Suc length_dropWhile_le)

text \<open>
  \<open>re.sub(r"\r?\n+", "\n", text)\<close>: at each position the pattern matches an optional
  carriage return followed by a maximal run of line feeds. A carriage return that is not
  followed by a line feed matches nothing (the optional \<open>\r\<close> is given back and the
  \<open>\n+\<close> then fails on it) and is copied. Each match is replaced by one line feed and
  the scan resumes behind the match.
\<close>

function sub_newlines :: "pystr \<Rightarrow> pystr" where
  "sub_newlines [] = []"
| "sub_newlines (c # cs) =
     (if c = LF then LF # sub_newlines (dropWhile (\<lambda>d. d = LF) cs)
      else if c = CR \<and> cs \<noteq> [] \<and> hd cs = LF
        then LF # sub_newlines (dropWhile (\<lambda>d. d = LF) cs)
      else c # sub_newlines cs)"
  by pat_completeness auto
termination
  by (relation "measure length") (auto simp: le_imp_less_Suc length_dropWhile_le)

definition clean_text :: "pystr \<Rightarrow> pystr" where
  "clean_text text = strip (sub_newlines (sub_spaces text))"

section \<open>Evidence items and the context budget: \<open>build_context\<close>\<close>

type_synonym path = pystr

record EvidenceItem =
  path :: path
  kind :: pystr
  title :: pystr
  excerpt :: pystr

text \<open>The f-string \<open>"\n## {it.title} ({it.kind})\n{it.excerpt}\n"\<close>.\<close>

definition chunk_of :: "EvidenceItem \<Rightarrow> pystr" where
  "chunk_of it =
     LF # py ''## '' @ title it @ py '' ('' @ kind it @ py '')'' @ [LF] @ excerpt it @ [LF]"

text \<open>
  The \<open>for\<close> loop of \<open>build_context\<close>, with its three variables \<open>lines\<close>,
  \<open>filenames\<close> and \<open>remaining\<close> passed along. \<open>remaining\<close> is a Python integer and
  may be negative.
\<close>

fun build_context_loop ::
  "EvidenceItem list \<Rightarrow> pystr list \<Rightarrow> pystr list \<Rightarrow> int \<Rightarrow> pystr list \<times> pystr list" where
  "build_context_loop [] lines filenames remaining = (lines, filenames)"
| "build_context_loop (it # items) lines filenames remaining =
     (if remaining \<le> 0 then (lines, filenames)
      else
        let chunk = chunk_of it;
            chunk = (if int (length chunk) > remaining then slice_to chunk remaining else chunk)
        in build_context_loop items (lines @ [chunk]) (filenames @ [title it])
             (remaining - int (length chunk)))"

definition build_context :: "EvidenceItem list \<Rightarrow> int \<Rightarrow> pystr \<times> pystr list" where
  "build_context items max_chars =
     (let lines = [py ''Evidence:''];
          remaining = max_chars - int (length (hd lines));
          (lines, filenames) = build_context_loop items lines [] remaining
      in (concat lines, filenames))"

section \<open>The world outside the program\<close>

text \<open>
  The program reaches the file system, three parsing libraries and a remote pipeline.
  None of them is code of this repository, so each is a parameter of the model. Python's
  own \<open>str.lower\<close>, \<open>Path.suffix\<close> and \<open>Path.name\<close> are parameters as well
  (\<open>pylib\<close>); they do not change while the program runs, the \<open>world\<close> may.

  An exception is a value; the model keeps what the program reads of it: the name of
  its class and the text \<open>str(e)\<close>. The exceptions of the model are instances of
  \<open>Exception\<close>, the class that the handlers of \<open>read_pdf\<close>, \<open>read_docx\<close> and
  \<open>read_xlsx\<close> catch.
\<close>

datatype exn = Exception pystr pystr

fun exn_class :: "exn \<Rightarrow> pystr" where
  "exn_class (Exception cls msg) = cls"

fun str_exn :: "exn \<Rightarrow> pystr" where
  "str_exn (Exception cls msg) = msg"

record pylib =
  str_lower :: "pystr \<Rightarrow> pystr"
  path_suffix :: "path \<Rightarrow> pystr"
  path_name :: "path \<Rightarrow> pystr"

text \<open>
  A PDF page is what its \<open>extract_text()\<close> does: it raises, or returns \<open>None\<close> or a
  string. A DOCX document is the list of its paragraph texts. A cell of a workbook holds
  a Python value, of which the program reads the truth value and \<open>str(value)\<close>.
\<close>

type_synonym pdf_page = "exn + pystr option"

datatype cell_value =
    NoneValue
  | StrValue pystr
  | IntValue int
  | BoolValue bool
  | OtherValue bool pystr

fun truthy :: "cell_value \<Rightarrow> bool" where
  "truthy NoneValue = False"
| "truthy (StrValue s) = (s \<noteq> [])"
| "truthy (IntValue i) = (i \<noteq> 0)"
| "truthy (BoolValue b) = b"
| "truthy (OtherValue t s) = t"

fun str_value :: "cell_value \<Rightarrow> pystr" where
  "str_value NoneValue = py ''None''"
| "str_value (StrValue s) = s"
| "str_value (IntValue i) = str_int i"
| "str_value (BoolValue b) = (if b then py ''True'' else py ''False'')"
| "str_value (OtherValue t s) = s"

record worksheet =
  ws_title :: pystr
  iter_rows :: "nat \<Rightarrow> nat \<Rightarrow> (exn + cell_value list) list"

record message =
  msg_source :: pystr
  msg_content :: pystr
  msg_usage :: "(pystr \<Rightarrow> int option) option"

record world =
  glob_glob :: "pystr \<Rightarrow> pystr list"
  resolve :: "pystr \<Rightarrow> path"
  is_file :: "path \<Rightarrow> bool"
  PdfReader :: "(path \<Rightarrow> exn + pdf_page list) option"
  docx_Document :: "(path \<Rightarrow> exn + pystr list) option"
  load_workbook :: "(path \<Rightarrow> exn + worksheet list) option"
  team_run :: "pystr \<Rightarrow> pystr list \<Rightarrow> exn + message list"

section \<open>File discovery: \<open>discover_paths\<close>\<close>

text \<open>
  \<open>list(dict.fromkeys(paths))\<close>: the keys are inserted one after the other, a key that
  is already present keeps its place, and the keys are listed in insertion order.
\<close>

definition fromkeys :: "'a list \<Rightarrow> 'a list" where
  "fromkeys xs = fold (\<lambda>x keys. if x \<in> set keys then keys else keys @ [x]) xs []"

text \<open>
  The two nested loops collect, pattern after pattern and match after match, the
  resolved paths that are regular files: \<open>resolve\<close> is
  \<open>Path(p).expanduser().resolve()\<close> and \<open>is_file\<close> is
  \<open>path.exists() and path.is_file()\<close>. A path is modelled by its string.
\<close>

definition found_paths :: "world \<Rightarrow> pystr list \<Rightarrow> path list" where
  "found_paths w patterns =
     concat (map (\<lambda>pat. filter (is_file w) (map (resolve w) (glob_glob w pat))) patterns)"

definition discover_paths :: "world \<Rightarrow> pystr list \<Rightarrow> path list" where
  "discover_paths w patterns = fromkeys (found_paths w patterns)"

text \<open>
  Two notions used to state the order of the result: the position of the first occurrence
  of an element, and the list of first occurrences written as a recursion.
\<close>

definition first_index :: "'a list \<Rightarrow> 'a \<Rightarrow> nat" where
  "first_index xs x = length (takeWhile (\<lambda>y. y \<noteq> x) xs)"

fun first_occurrences :: "'a list \<Rightarrow> 'a list" where
  "first_occurrences [] = []"
| "first_occurrences (x # xs) = x # first_occurrences (removeAll x xs)"

section \<open>Text extraction: \<open>read_pdf\<close>, \<open>read_docx\<close>, \<open>read_xlsx\<close>\<close>

text \<open>
  Each reader is a guard on the library, then a \<open>try\<close> block. The block is modelled by a
  function into \<open>exn + pystr\<close> (\<open>Inl\<close>: the block raised), the reader around it turns
  the exception into the placeholder string.
\<close>

fun read_pdf_loop :: "(nat \<times> pdf_page) list \<Rightarrow> pystr list \<Rightarrow> int \<Rightarrow> exn + pystr list" where
  "read_pdf_loop [] texts max_chars = Inr texts"
| "read_pdf_loop ((i, page) # rest) texts max_chars =
     (case page of
        Inl e \<Rightarrow> Inl e
      | Inr extracted \<Rightarrow>
          let txt = strip (case extracted of None \<Rightarrow> [] | Some t \<Rightarrow> t)
          in if txt \<noteq> [] then
               let texts = texts @ [py ''[p'' @ str_int (int i + 1) @ py ''] '' @ txt]
               in if sum_len texts > max_chars then Inr texts
                  else read_pdf_loop rest texts max_chars
             else read_pdf_loop rest texts max_chars)"

definition read_pdf_try :: "(path \<Rightarrow> exn + pdf_page list) \<Rightarrow> path \<Rightarrow> int \<Rightarrow> exn + pystr" where
  "read_pdf_try reader p max_chars =
     (case reader p of
        Inl e \<Rightarrow> Inl e
      | Inr pages \<Rightarrow>
          (case read_pdf_loop (enumerate 0 (take 10 pages)) [] max_chars of
             Inl e \<Rightarrow> Inl e
           | Inr texts \<Rightarrow> Inr (slice_to (clean_text (join [LF] texts)) max_chars)))"

definition read_pdf :: "world \<Rightarrow> path \<Rightarrow> int \<Rightarrow> pystr" where
  "read_pdf w p max_chars =
     (case PdfReader w of
        None \<Rightarrow> py ''(Install pypdf)''
      | Some reader \<Rightarrow>
          (case read_pdf_try reader p max_chars of
             Inr s \<Rightarrow> s
           | Inl e \<Rightarrow> py ''(PDF error: '' @ str_exn e @ py '')''))"

definition read_docx_try :: "(path \<Rightarrow> exn + pystr list) \<Rightarrow> path \<Rightarrow> int \<Rightarrow> exn + pystr" where
  "read_docx_try document p max_chars =
     (case document p of
        Inl e \<Rightarrow> Inl e
      | Inr paragraphs \<Rightarrow>
          let paras = map strip (filter (\<lambda>t. strip t \<noteq> []) paragraphs)
          in Inr (slice_to (clean_text (join [LF] paras)) max_chars))"

definition read_docx :: "world \<Rightarrow> path \<Rightarrow> int \<Rightarrow> pystr" where
  "read_docx w p max_chars =
     (case docx_Document w of
        None \<Rightarrow> py ''(Install python-docx)''
      | Some document \<Rightarrow>
          (case read_docx_try document p max_chars of
             Inr s \<Rightarrow> s
           | Inl e \<Rightarrow> py ''(DOCX error: '' @ str_exn e @ py '')''))"

fun read_xlsx_rows :: "(exn + cell_value list) list \<Rightarrow> pystr list \<Rightarrow> int \<Rightarrow> exn + pystr list" where
  "read_xlsx_rows [] rows max_chars = Inr rows"
| "read_xlsx_rows (r # rest) rows max_chars =
     (case r of
        Inl e \<Rightarrow> Inl e
      | Inr row \<Rightarrow>
          let vals = map (\<lambda>v. if truthy v then str_value v else []) row;
              rows = rows @ [join (py '', '') vals]
          in if sum_len rows > max_chars div 2 then Inr rows
             else read_xlsx_rows rest rows max_chars)"

fun read_xlsx_sheets :: "worksheet list \<Rightarrow> pystr list \<Rightarrow> int \<Rightarrow> exn + pystr list" where
  "read_xlsx_sheets [] parts max_chars = Inr parts"
| "read_xlsx_sheets (ws # rest) parts max_chars =
     (case read_xlsx_rows (iter_rows ws 1 20) [] max_chars of
        Inl e \<Rightarrow> Inl e
      | Inr rows \<Rightarrow>
          if rows \<noteq> [] then
            let parts = parts @ [py ''['' @ ws_title ws @ py ''] '' @ join (py '' | '') rows]
            in if sum_len parts > max_chars then Inr parts
               else read_xlsx_sheets rest parts max_chars
          else read_xlsx_sheets rest parts max_chars)"

definition read_xlsx_try :: "(path \<Rightarrow> exn + worksheet list) \<Rightarrow> path \<Rightarrow> int \<Rightarrow> exn + pystr" where
  "read_xlsx_try workbook p max_chars =
     (case workbook p of
        Inl e \<Rightarrow> Inl e
      | Inr worksheets \<Rightarrow>
          (case read_xlsx_sheets (take 3 worksheets) [] max_chars of
             Inl e \<Rightarrow> Inl e
           | Inr parts \<Rightarrow> Inr (slice_to (clean_text (join [LF] parts)) max_chars)))"

definition read_xlsx :: "world \<Rightarrow> path \<Rightarrow> int \<Rightarrow> pystr" where
  "read_xlsx w p max_chars =
     (case load_workbook w of
        None \<Rightarrow> py ''(Install openpyxl)''
      | Some workbook \<Rightarrow>
          (case read_xlsx_try workbook p max_chars of
             Inr s \<Rightarrow> s
           | Inl e \<Rightarrow> py ''(XLSX error: '' @ str_exn e @ py '')''))"

section \<open>Evidence loading: \<open>load_evidence\<close>\<close>

definition handlers :: "pystr \<Rightarrow> ((world \<Rightarrow> path \<Rightarrow> int \<Rightarrow> pystr) \<times> pystr) option" where
  "handlers ext =
     (if ext = py ''.pdf'' then Some (read_pdf, py ''pdf'')
      else if ext = py ''.docx'' then Some (read_docx, py ''docx'')
      else if ext = py ''.xlsx'' then Some (read_xlsx, py ''xlsx'')
      else None)"

fun load_evidence :: "pylib \<Rightarrow> world \<Rightarrow> path list \<Rightarrow> int \<Rightarrow> EvidenceItem list" where
  "load_evidence l w [] per_file = []"
| "load_evidence l w (p # paths) per_file =
     (case handlers (str_lower l (path_suffix l p)) of
        Some (reader, knd) \<Rightarrow>
          \<lparr>path = p, kind = knd, title = path_name l p, excerpt = reader w p per_file\<rparr>
            # load_evidence l w paths per_file
      | None \<Rightarrow> load_evidence l w paths per_file)"

section \<open>The audit run and the command loop: \<open>run_audit\<close>, \<open>main\<close>\<close>

text \<open>
  The state of a session: the queue, and the lines printed so far. A command continues
  the loop, leaves it (\<open>break\<close>), or lets an exception escape. \<open>build_team\<close> only
  configures the remote pipeline, which is the parameter \<open>team_run\<close> of the world.
\<close>

record state =
  queue :: "path list"
  out :: "pystr list"

datatype control = Continue | Break | Raise exn

definition print :: "pystr \<Rightarrow> state \<Rightarrow> state" where
  "print line st = st\<lparr>out := out st @ [line]\<rparr>"

definition usage_total :: "pystr \<Rightarrow> message list \<Rightarrow> int" where
  "usage_total key messages =
     sum_list (map (\<lambda>m. case msg_usage m of
                           None \<Rightarrow> 0
                         | Some u \<Rightarrow> (case u key of None \<Rightarrow> 0 | Some n \<Rightarrow> n)) messages)"

text \<open>
  \<open>run_audit\<close>. The task text handed to the remote pipeline is built from the context
  and the file names only, so \<open>team_run\<close> takes these two.
\<close>

definition run_audit :: "world \<Rightarrow> EvidenceItem list \<Rightarrow> state \<Rightarrow> control \<times> state" where
  "run_audit w items st =
     (if items = [] then (Continue, print (py ''No evidence. Use `add <files>`'') st)
      else
        let (context, filenames) = build_context items 10000;
            st = print (py ''Context length: '' @ str_int (int (length context)) @ py '' chars'') st;
            st = print (py ''Starting audit...'') st
        in case team_run w context filenames of
             Inl e \<Rightarrow> (Raise e, st)
           | Inr messages \<Rightarrow>
               let st = print (LF # py ''=== IEC 62304 Audit Results ==='') st;
                   total_input = usage_total (py ''input_tokens'') messages;
                   total_output = usage_total (py ''output_tokens'') messages;
                   st = print (py ''Tokens - Total: '' @ str_int (total_input + total_output)
                          @ py '', In: '' @ str_int total_input
                          @ py '', Out: '' @ str_int total_output) st
               in (Continue,
                   fold (\<lambda>m s. print (replicate 50 45)
                           (print (py ''['' @ msg_source m @ py '']: '' @ msg_content m) s))
                     messages st))"

text \<open>\<open>str.split()\<close> without arguments: the maximal runs of non-whitespace.\<close>

function split_ws :: "pystr \<Rightarrow> pystr list" where
  "split_ws s =
     (let s' = dropWhile is_space s
      in if s' = [] then []
         else takeWhile (\<lambda>c. \<not> is_space c) s' # split_ws (dropWhile (\<lambda>c. \<not> is_space c) s'))"
  by pat_completeness auto
termination
proof (relation "measure length")
  show "wf (measure length)" by simp
next
  fix s s' :: pystr
  assume s': "s' = dropWhile is_space s" and ne: "s' \<noteq> []"
  from ne obtain c cs where c: "s' = c # cs" by (cases s') simp_all
  have "\<not> is_space c"
    using s' c by (metis hd_dropWhile list.sel(1) ne)
  then have "length (dropWhile (\<lambda>c. \<not> is_space c) s') \<le> length cs"
    using c by (simp add: length_dropWhile_le)
  also have "length cs < length s'" using c by simp
  also have "length s' \<le> length s" using s' by (simp add: length_dropWhile_le)
  finally show "(dropWhile (\<lambda>c. \<not> is_space c) s', s) \<in> measure length" by simp
qed

declare split_ws.simps [simp del]

text \<open>The format \<open>{i:2d}\<close>: decimal, padded with spaces on the left to width 2.\<close>

definition fmt_2d :: "int \<Rightarrow> pystr" where
  "fmt_2d i = replicate (2 - length (str_int i)) SP @ str_int i"

definition supported :: "pylib \<Rightarrow> path \<Rightarrow> bool" where
  "supported l p \<longleftrightarrow>
     str_lower l (path_suffix l p) \<in> {py ''.pdf'', py ''.docx'', py ''.xlsx''}"

text \<open>The \<open>if\<close>/\<open>elif\<close> chain of the loop body, for a command word and its arguments.\<close>

definition dispatch :: "pylib \<Rightarrow> world \<Rightarrow> pystr \<Rightarrow> pystr list \<Rightarrow> state \<Rightarrow> control \<times> state" where
  "dispatch l w cmd args st =
     (if cmd \<in> {py ''quit'', py ''exit''} then (Break, st)
      else if cmd = py ''add'' then
        (if args = [] then (Continue, print (py ''Usage: add <files>'') st)
         else
           let found = filter (supported l) (discover_paths w args)
           in if found \<noteq> [] then
                let st = st\<lparr>queue := queue st @ filter (\<lambda>p. p \<notin> set (queue st)) found\<rparr>
                in (Continue,
                    print (py ''Added '' @ str_int (int (length found)) @ py '' files'') st)
              else (Continue, print (py ''No supported files found'') st))
      else if cmd = py ''list'' then
        (if queue st \<noteq> [] then
           (Continue,
            fold (\<lambda>(i, p) s. print (fmt_2d (int i) @ py ''. '' @ p) s)
              (enumerate 1 (queue st)) st)
         else (Continue, print (py ''Queue empty'') st))
      else if cmd = py ''clear'' then
        (Continue, print (py ''Queue cleared'') (st\<lparr>queue := []\<rparr>))
      else if cmd = py ''run'' then
        (if queue st \<noteq> [] then run_audit w (load_evidence l w (queue st) 1600) st
         else (Continue, print (py ''Queue empty'') st))
      else (Continue, print (py ''Unknown command'') st))"

text \<open>
  One pass of the \<open>while\<close> loop for a line read by \<open>input\<close>. Unpacking
  \<open>cmd, *args\<close> from an empty list raises \<open>ValueError\<close>.
\<close>

definition step :: "pylib \<Rightarrow> world \<Rightarrow> pystr \<Rightarrow> state \<Rightarrow> control \<times> state" where
  "step l w line st =
     (let raw = strip line
      in if raw = [] then (Continue, st)
         else (case split_ws raw of
                 [] \<Rightarrow> (Raise (Exception (py ''ValueError'')
                                (py ''not enough values to unpack (expected at least 1, got 0)'')),
                        st)
               | cmd # args \<Rightarrow> dispatch l w (str_lower l cmd) args st))"

text \<open>
  The loop over the lines typed in a session, each with the world as it is when the line
  is read. The list ends where \<open>input\<close> raises \<open>EOFError\<close> or the user interrupts the
  program at the prompt; both leave the loop, and so does an \<open>EOFError\<close> raised inside the
  loop body. \<open>out\<close> records the calls of \<open>print\<close>, not the prompt.
\<close>

fun session :: "pylib \<Rightarrow> (world \<times> pystr) list \<Rightarrow> state \<Rightarrow> control \<times> state" where
  "session l [] st = (Break, st)"
| "session l ((w, line) # rest) st =
     (case step l w line st of
        (Continue, st') \<Rightarrow> session l rest st'
      | (Break, st') \<Rightarrow> (Break, st')
      | (Raise e, st') \<Rightarrow>
          if exn_class e = py ''EOFError'' then (Break, st') else (Raise e, st'))"

definition banner :: "pystr list" where
  "banner =
     [LF # py ''IEC 62304 Auditor Commands:'',
      py ''  add <files>  - Add documentation'',
      py ''  list        - Show queued files'',
      py ''  clear       - Clear queue'',
      py ''  run         - Execute audit'',
      py ''  quit        - Exit'' @ [LF]]"

definition main :: "pylib \<Rightarrow> (world \<times> pystr) list \<Rightarrow> control \<times> state" where
  "main l inputs =
     (case session l inputs \<lparr>queue = [], out = banner\<rparr> of
        (Raise e, st) \<Rightarrow> (Raise e, st)
      | (c, st) \<Rightarrow> (c, print (LF # py ''Bye.'') st))"

section \<open>Start-up: the credential check\<close>

text \<open>
  \<open>load_dotenv()\<close> adds the variables of a \<open>.env\<close> file to \<open>os.environ\<close> without
  replacing a variable that is already set. The check then reads \<open>os.environ\<close>.
  The process ends with an exit status and what it printed.
\<close>

definition load_dotenv :: "(pystr \<rightharpoonup> pystr) \<Rightarrow> (pystr \<rightharpoonup> pystr) \<Rightarrow> (pystr \<rightharpoonup> pystr)" where
  "load_dotenv dotenv environ = dotenv ++ environ"

datatype ending = Exit nat | Uncaught exn

definition program ::
  "(pystr \<rightharpoonup> pystr) \<Rightarrow> (pystr \<rightharpoonup> pystr) \<Rightarrow> pylib \<Rightarrow> (world \<times> pystr) list \<Rightarrow> ending \<times> pystr list" where
  "program dotenv environ l inputs =
     (let os_environ = load_dotenv dotenv environ
      in if os_environ (py ''ANTHROPIC_API_KEY'') = None
         then (Exit 1, [py ''ERROR: Set ANTHROPIC_API_KEY''])
         else (case main l inputs of
                 (Raise e, st) \<Rightarrow> (Uncaught e, out st)
               | (c, st) \<Rightarrow> (Exit 0, out st)))"

section \<open>Notions used to state the properties of \<open>clean_text\<close>\<close>

text \<open>
  \<open>starts_match xs\<close>: the pattern \<open>\r?\n+\<close> matches at the beginning of \<open>xs\<close>.
  \<open>lines_of\<close> cuts a text at its line feeds.
\<close>

definition starts_match :: "pystr \<Rightarrow> bool" where
  "starts_match xs \<longleftrightarrow>
     xs \<noteq> [] \<and> (hd xs = LF \<or> (hd xs = CR \<and> tl xs \<noteq> [] \<and> hd (tl xs) = LF))"

fun lines_of :: "pystr \<Rightarrow> pystr list" where
  "lines_of [] = [[]]"
| "lines_of (c # cs) =
     (if c = LF then [] # lines_of cs
      else (case lines_of cs of [] \<Rightarrow> [[c]] | l # ls \<Rightarrow> (c # l) # ls))"

section \<open>An example library and world\<close>

text \<open>
  A concrete instance on which the model runs: ASCII lower-casing, POSIX path names, a
  working directory \<open>/w\<close> with the files \<open>a.pdf\<close>, \<open>notes.txt\<close>, \<open>B.DOCX\<close>,
  \<open>t.xlsx\<close>, \<open>bad.pdf\<close> and the directory \<open>sub\<close>, the PDF and XLSX libraries
  installed and the DOCX library missing.
\<close>

definition ascii_lower :: "pystr \<Rightarrow> pystr" where
  "ascii_lower s = map (\<lambda>c. if 65 \<le> c \<and> c \<le> 90 then c + 32 else c) s"

definition posix_name :: "path \<Rightarrow> pystr" where
  "posix_name p = rev (takeWhile (\<lambda>c. c \<noteq> 47) (rev p))"

definition posix_suffix :: "path \<Rightarrow> pystr" where
  "posix_suffix p =
     (let n = posix_name p; ext = rev (takeWhile (\<lambda>c. c \<noteq> 46) (rev n))
      in if 46 \<in> set n \<and> ext \<noteq> [] \<and> length ext + 1 < length n then 46 # ext else [])"

definition example_lib :: pylib where
  "example_lib =
     \<lparr>str_lower = ascii_lower, path_suffix = posix_suffix, path_name = posix_name\<rparr>"

definition example_world :: world where
  "example_world =
     \<lparr>glob_glob = (\<lambda>pat.
          if pat = py ''*'' then
            [py ''a.pdf'', py ''notes.txt'', py ''B.DOCX'', py ''sub'', py ''t.xlsx'']
          else if pat = py ''a.*'' then [py ''a.pdf'']
          else if pat = py ''bad.pdf'' then [py ''bad.pdf'']
          else []),
      resolve = (\<lambda>p. py ''/w/'' @ p),
      is_file = (\<lambda>p. p \<noteq> py ''/w/sub''),
      PdfReader = Some (\<lambda>p.
          if p = py ''/w/a.pdf'' then
            Inr [Inr (Some (py ''Hello   world '')), Inr None, Inr (Some (py ''page three''))]
          else Inl (Exception (py ''PdfReadError'') (py ''EOF marker not found''))),
      docx_Document = None,
      load_workbook = Some (\<lambda>p.
          Inr [\<lparr>ws_title = py ''S1'',
                iter_rows = (\<lambda>lo hi. [Inr [StrValue (py ''id''), IntValue 0, IntValue 7]])\<rparr>]),
      team_run = (\<lambda>context filenames. Inr [])\<rparr>"

section \<open>Properties of \<open>build_context\<close>\<close>

lemma build_context_loop_budget:
  "int (length (concat (fst (build_context_loop items lines filenames remaining))))
     \<le> int (length (concat lines)) + max remaining 0"
proof (induction items arbitrary: lines filenames remaining)
  case Nil
  show ?case by simp
next
  case (Cons it items)
  show ?case
  proof (cases "remaining \<le> 0")
    case True
    then show ?thesis by simp
  next
    case False
    define chunk where
      "chunk = (if int (length (chunk_of it)) > remaining
                then slice_to (chunk_of it) remaining else chunk_of it)"
    have fits: "int (length chunk) \<le> remaining"
      using False by (simp add: chunk_def slice_to_def)
    have "int (length (concat (fst (build_context_loop items (lines @ [chunk])
              (filenames @ [title it]) (remaining - int (length chunk))))))
          \<le> int (length (concat (lines @ [chunk]))) + max (remaining - int (length chunk)) 0"
      by (rule Cons.IH)
    also have "\<dots> = int (length (concat lines)) + remaining"
      using fits by simp
    finally show ?thesis
      using False by (simp add: chunk_def Let_def)
  qed
qed

lemma build_context_length:
  "int (length (fst (build_context items max_chars))) \<le> max max_chars 9"
proof -
  have "int (length (concat (fst (build_context_loop items [py ''Evidence:''] []
            (max_chars - 9))))) \<le> 9 + max (max_chars - 9) 0"
    using build_context_loop_budget [of items "[py ''Evidence:'']" "[]" "max_chars - 9"]
    by (simp add: py_def)
  then show ?thesis
    by (auto simp add: build_context_def py_def split: prod.splits)
qed

lemma build_context_small_budget:
  "max_chars \<le> 9 \<Longrightarrow> build_context items max_chars = (py ''Evidence:'', [])"
  by (cases items) (simp_all add: build_context_def py_def)

text \<open>
  C1, as stated, fails: the header \<open>Evidence:\<close> (9 characters) is always emitted, also
  when the budget is smaller. With no items and a budget of 5 the context has length 9.
\<close>

theorem build_context_over_budget:
  "\<not> int (length (fst (build_context [] 5))) \<le> 5"
  by (simp add: build_context_def py_def)

text \<open>
  C1, amended: for every list of evidence items and every budget of at least 9 characters
  (the length of the header) the context has at most \<open>max_chars\<close> characters, however long
  the excerpts are; for a smaller budget the context is the header alone, with no file.
\<close>

theorem build_context_within_budget:
  "(9 \<le> max_chars \<longrightarrow> int (length (fst (build_context items max_chars))) \<le> max_chars) \<and>
   (max_chars < 9 \<longrightarrow> build_context items max_chars = (py ''Evidence:'', []))"
  using build_context_length [of items max_chars]
    build_context_small_budget [of max_chars items]
  by auto

theorem build_context_within_budget_witness:
  "(9::int) \<le> 20 \<and>
   int (length (fst (build_context
      [\<lparr>path = py ''/d/a.pdf'', kind = py ''pdf'', title = py ''a.pdf'',
        excerpt = py ''a long excerpt of the file''\<rparr>] 20))) \<le> 20 \<and>
   (4::int) < 9 \<and>
   build_context
      [\<lparr>path = py ''/d/a.pdf'', kind = py ''pdf'', title = py ''a.pdf'',
        excerpt = py ''a long excerpt of the file''\<rparr>] 4 = (py ''Evidence:'', [])"
  using build_context_within_budget [of 20
      "[\<lparr>path = py ''/d/a.pdf'', kind = py ''pdf'', title = py ''a.pdf'',
         excerpt = py ''a long excerpt of the file''\<rparr>]"]
    build_context_within_budget [of 4
      "[\<lparr>path = py ''/d/a.pdf'', kind = py ''pdf'', title = py ''a.pdf'',
         excerpt = py ''a long excerpt of the file''\<rparr>]"]
  by simp
section \<open>Properties of \<open>clean_text\<close>\<close>

lemma successively_suffix: "successively R (xs @ ys) \<Longrightarrow> successively R ys"
  by (simp add: successively_append_iff)

lemma successively_prefix: "successively R (xs @ ys) \<Longrightarrow> successively R xs"
  by (simp add: successively_append_iff)

lemma successively_dropWhile: "successively R xs \<Longrightarrow> successively R (dropWhile P xs)"
  using successively_suffix [of R "takeWhile P xs" "dropWhile P xs"] by simp

lemma sub_spaces_Nil_iff [simp]: "sub_spaces xs = [] \<longleftrightarrow> xs = []"
  by (cases xs) simp_all

lemma sub_spaces_hd:
  "xs \<noteq> [] \<Longrightarrow> hd (sub_spaces xs) = (if is_blank (hd xs) then SP else hd xs)"
  by (cases xs) simp_all

lemma hd_dropWhile_not: "dropWhile P xs \<noteq> [] \<Longrightarrow> \<not> P (hd (dropWhile P xs))"
  by (metis hd_dropWhile)

lemma sub_spaces_successively:
  assumes "\<And>a. R a SP" and "\<And>b. \<not> is_blank b \<Longrightarrow> R SP b"
  shows "successively R xs \<Longrightarrow> successively R (sub_spaces xs)"
proof (induction xs rule: sub_spaces.induct)
  case 1
  show ?case by simp
next
  case (2 c cs)
  show ?case
  proof (cases "is_blank c")
    case True
    have "successively R (dropWhile is_blank cs)"
      using 2(3) by (auto simp: successively_Cons intro: successively_dropWhile)
    then have "successively R (sub_spaces (dropWhile is_blank cs))"
      using True 2(1) by simp
    moreover have "dropWhile is_blank cs \<noteq> [] \<Longrightarrow>
        R SP (hd (sub_spaces (dropWhile is_blank cs)))"
      using hd_dropWhile_not [of is_blank cs] assms(2) by (simp add: sub_spaces_hd)
    ultimately show ?thesis
      using True by (auto simp: successively_Cons)
  next
    case False
    have "successively R (sub_spaces cs)"
      using False 2 by (auto simp: successively_Cons)
    moreover have "cs \<noteq> [] \<Longrightarrow> R c (hd (sub_spaces cs))"
      using 2(3) assms(1) by (auto simp: successively_Cons sub_spaces_hd)
    ultimately show ?thesis
      using False by (auto simp: successively_Cons)
  qed
qed

lemma sub_spaces_no_blank_run:
  "successively (\<lambda>a b. \<not> (is_blank a \<and> is_blank b)) (sub_spaces xs)"
proof (induction xs rule: sub_spaces.induct)
  case 1
  show ?case by simp
next
  case (2 c cs)
  show ?case
  proof (cases "is_blank c")
    case True
    have "dropWhile is_blank cs \<noteq> [] \<Longrightarrow>
        \<not> is_blank (hd (sub_spaces (dropWhile is_blank cs)))"
      using hd_dropWhile_not [of is_blank cs] by (simp add: sub_spaces_hd)
    then show ?thesis
      using True 2(1) by (auto simp: successively_Cons)
  next
    case False
    then show ?thesis
      using 2(2) by (auto simp: successively_Cons)
  qed
qed

lemma sub_spaces_no_tab: "TAB \<notin> set (sub_spaces xs)"
proof (induction xs rule: sub_spaces.induct)
  case 1
  show ?case by simp
next
  case (2 c cs)
  then show ?case by (auto simp: is_blank_def)
qed

lemma sub_spaces_fixed:
  "successively (\<lambda>a b. \<not> (is_blank a \<and> is_blank b)) xs \<Longrightarrow> TAB \<notin> set xs \<Longrightarrow>
   sub_spaces xs = xs"
proof (induction xs rule: sub_spaces.induct)
  case 1
  show ?case by simp
next
  case (2 c cs)
  show ?case
  proof (cases "is_blank c")
    case True
    then have c: "c = SP" using 2(4) by (auto simp: is_blank_def)
    have "cs = [] \<or> \<not> is_blank (hd cs)"
      using 2(3) True by (auto simp: successively_Cons)
    then have d: "dropWhile is_blank cs = cs"
      by (cases cs) auto
    have "successively (\<lambda>a b. \<not> (is_blank a \<and> is_blank b)) cs"
      using 2(3) by (auto simp: successively_Cons)
    then show ?thesis
      using True 2(1) 2(4) c d by simp
  next
    case False
    have "successively (\<lambda>a b. \<not> (is_blank a \<and> is_blank b)) cs"
      using 2(3) by (auto simp: successively_Cons)
    then show ?thesis
      using False 2(2) 2(4) by simp
  qed
qed

lemma sub_newlines_Nil_iff [simp]: "sub_newlines xs = [] \<longleftrightarrow> xs = []"
  by (cases xs) simp_all

lemma sub_newlines_hd:
  "xs \<noteq> [] \<Longrightarrow> hd (sub_newlines xs) = (if starts_match xs then LF else hd xs)"
  by (cases xs) (auto simp: starts_match_def)

lemma sub_newlines_set: "set (sub_newlines xs) \<subseteq> insert LF (set xs)"
proof (induction xs rule: sub_newlines.induct)
  case 1
  show ?case by simp
next
  case (2 c cs)
  have "set (dropWhile (\<lambda>d. d = LF) cs) \<subseteq> set cs"
    by (auto dest: set_dropWhileD)
  then show ?case
    using 2 by (auto split: if_splits)
qed

lemma sub_newlines_successively:
  assumes "\<And>a. R a LF" and "\<And>b. R LF b"
  shows "successively R xs \<Longrightarrow> successively R (sub_newlines xs)"
proof (induction xs rule: sub_newlines.induct)
  case 1
  show ?case by simp
next
  case (2 c cs)
  have tail: "successively R cs"
    using 2(4) by (auto simp: successively_Cons)
  show ?case
  proof (cases "c = LF \<or> (c = CR \<and> cs \<noteq> [] \<and> hd cs = LF)")
    case True
    have "successively R (sub_newlines (dropWhile (\<lambda>d. d = LF) cs))"
      using True 2(1) 2(2) tail by (auto intro: successively_dropWhile)
    then show ?thesis
      using True assms(2) by (auto simp: successively_Cons)
  next
    case False
    have "successively R (sub_newlines cs)"
      using False 2(3) tail by auto
    moreover have "cs \<noteq> [] \<Longrightarrow> R c (hd (sub_newlines cs))"
      using 2(4) assms(1) by (auto simp: successively_Cons sub_newlines_hd)
    ultimately show ?thesis
      using False by (auto simp: successively_Cons)
  qed
qed

lemma after_LF_run:
  "successively (\<lambda>a b. \<not> (a = LF \<and> b = CR)) (LF # cs) \<Longrightarrow>
   dropWhile (\<lambda>d. d = LF) cs \<noteq> [] \<Longrightarrow>
   hd (dropWhile (\<lambda>d. d = LF) cs) \<noteq> LF \<and> hd (dropWhile (\<lambda>d. d = LF) cs) \<noteq> CR"
  by (induction cs) (auto simp: successively_Cons split: if_splits)

lemma not_starts_match: "xs \<noteq> [] \<Longrightarrow> hd xs \<noteq> LF \<Longrightarrow> hd xs \<noteq> CR \<Longrightarrow> \<not> starts_match xs"
  by (simp add: starts_match_def)

lemma sub_newlines_no_LF_LF:
  "successively (\<lambda>a b. \<not> (a = LF \<and> b = CR)) xs \<Longrightarrow>
   successively (\<lambda>a b. \<not> (a = LF \<and> b = LF)) (sub_newlines xs)"
proof (induction xs rule: sub_newlines.induct)
  case 1
  show ?case by simp
next
  case (2 c cs)
  let ?R = "\<lambda>a b. \<not> (a = LF \<and> b = CR)"
  let ?rest = "dropWhile (\<lambda>d. d = LF) cs"
  have tail: "successively ?R cs"
    using 2(4) by (auto simp: successively_Cons)
  show ?case
  proof (cases "c = LF \<or> (c = CR \<and> cs \<noteq> [] \<and> hd cs = LF)")
    case True
    have run: "successively ?R (LF # cs)"
    proof (cases "c = LF")
      case True
      then show ?thesis using 2(4) by simp
    next
      case False
      then obtain ds where "cs = LF # ds"
        using True by (cases cs) auto
      then show ?thesis using tail by simp
    qed
    have "successively ?R ?rest"
      using tail by (rule successively_dropWhile)
    then have ih: "successively (\<lambda>a b. \<not> (a = LF \<and> b = LF)) (sub_newlines ?rest)"
      using True 2(1) 2(2) by auto
    have "?rest \<noteq> [] \<Longrightarrow> hd (sub_newlines ?rest) \<noteq> LF"
      using after_LF_run [OF run] by (simp add: sub_newlines_hd not_starts_match)
    then show ?thesis
      using True ih by (auto simp: successively_Cons)
  next
    case False
    have "successively (\<lambda>a b. \<not> (a = LF \<and> b = LF)) (sub_newlines cs)"
      using False 2(3) tail by auto
    then show ?thesis
      using False by (auto simp: successively_Cons)
  qed
qed

lemma sub_newlines_no_CR_LF:
  "successively (\<lambda>a b. \<not> (a = CR \<and> b = CR)) xs \<Longrightarrow>
   successively (\<lambda>a b. \<not> (a = CR \<and> b = LF)) (sub_newlines xs)"
proof (induction xs rule: sub_newlines.induct)
  case 1
  show ?case by simp
next
  case (2 c cs)
  let ?R = "\<lambda>a b. \<not> (a = CR \<and> b = CR)"
  let ?rest = "dropWhile (\<lambda>d. d = LF) cs"
  have tail: "successively ?R cs"
    using 2(4) by (auto simp: successively_Cons)
  show ?case
  proof (cases "c = LF \<or> (c = CR \<and> cs \<noteq> [] \<and> hd cs = LF)")
    case True
    have "successively ?R ?rest"
      using tail by (rule successively_dropWhile)
    then have "successively (\<lambda>a b. \<not> (a = CR \<and> b = LF)) (sub_newlines ?rest)"
      using True 2(1) 2(2) by auto
    then show ?thesis
      using True by (auto simp: successively_Cons)
  next
    case False
    have ih: "successively (\<lambda>a b. \<not> (a = CR \<and> b = LF)) (sub_newlines cs)"
      using False 2(3) tail by auto
    have "c = CR \<Longrightarrow> cs \<noteq> [] \<Longrightarrow> hd (sub_newlines cs) \<noteq> LF"
      using False 2(4)
      by (auto simp: successively_Cons sub_newlines_hd starts_match_def)
    then show ?thesis
      using False ih by (auto simp: successively_Cons)
  qed
qed

lemma sub_newlines_fixed:
  "successively (\<lambda>a b. \<not> (a = LF \<and> b = LF)) xs \<Longrightarrow>
   successively (\<lambda>a b. \<not> (a = CR \<and> b = LF)) xs \<Longrightarrow>
   sub_newlines xs = xs"
proof (induction xs rule: sub_newlines.induct)
  case 1
  show ?case by simp
next
  case (2 c cs)
  have t1: "successively (\<lambda>a b. \<not> (a = LF \<and> b = LF)) cs"
    and t2: "successively (\<lambda>a b. \<not> (a = CR \<and> b = LF)) cs"
    using 2(4) 2(5) by (auto simp: successively_Cons)
  show ?case
  proof (cases "c = LF")
    case True
    have "cs = [] \<or> hd cs \<noteq> LF"
      using True 2(4) by (auto simp: successively_Cons)
    then have d: "dropWhile (\<lambda>d. d = LF) cs = cs"
      by (cases cs) auto
    show ?thesis
      using True 2(1) t1 t2 d by simp
  next
    case False
    have "\<not> (c = CR \<and> cs \<noteq> [] \<and> hd cs = LF)"
      using 2(5) by (auto simp: successively_Cons)
    then show ?thesis
      using False 2(3) t1 t2 by auto
  qed
qed

lemma successively_strip: "successively R xs \<Longrightarrow> successively R (strip xs)"
proof -
  assume a: "successively R xs"
  have "successively R (lstrip xs)"
    unfolding lstrip_def using a by (rule successively_dropWhile)
  then have "successively (\<lambda>x y. R y x) (rev (lstrip xs))"
    by simp
  then have "successively (\<lambda>x y. R y x) (dropWhile is_space (rev (lstrip xs)))"
    by (rule successively_dropWhile)
  then show ?thesis
    by (simp add: strip_def rstrip_def)
qed

lemma set_strip: "set (strip xs) \<subseteq> set xs"
proof
  fix x assume "x \<in> set (strip xs)"
  then have "x \<in> set (dropWhile is_space (rev (dropWhile is_space xs)))"
    by (simp add: strip_def rstrip_def lstrip_def)
  then have "x \<in> set (rev (dropWhile is_space xs))"
    by (rule set_dropWhileD)
  then have "x \<in> set (dropWhile is_space xs)" by simp
  then show "x \<in> set xs" by (rule set_dropWhileD)
qed

lemma strip_ends:
  assumes "strip xs \<noteq> []"
  shows "\<not> is_space (hd (strip xs)) \<and> \<not> is_space (last (strip xs))"
proof -
  let ?l = "dropWhile is_space xs"
  let ?r = "dropWhile is_space (rev ?l)"
  have s: "strip xs = rev ?r"
    by (simp add: strip_def rstrip_def lstrip_def)
  have r: "?r \<noteq> []" using assms s by simp
  then have "\<not> is_space (hd ?r)" by (rule hd_dropWhile_not)
  then have last: "\<not> is_space (last (strip xs))"
    using r s by (simp add: last_rev)
  have l: "?l \<noteq> []"
    using r by (metis dropWhile.simps(1) rev.simps(1))
  then have nl: "\<not> is_space (hd ?l)" by (rule hd_dropWhile_not)
  have "rev ?l = takeWhile is_space (rev ?l) @ ?r" by simp
  then have "?l = rev ?r @ rev (takeWhile is_space (rev ?l))"
    by (metis rev_append rev_rev_ident)
  then have "hd ?l = hd (rev ?r)"
    using r by (metis hd_append2 rev_is_Nil_conv)
  then show ?thesis
    using nl last s by simp
qed

lemma dropWhile_id: "ys = [] \<or> \<not> P (hd ys) \<Longrightarrow> dropWhile P ys = ys"
  by (cases ys) auto

lemma strip_fixed:
  assumes "xs = [] \<or> (\<not> is_space (hd xs) \<and> \<not> is_space (last xs))"
  shows "strip xs = xs"
proof (cases xs)
  case Nil
  then show ?thesis by (simp add: strip_def rstrip_def lstrip_def)
next
  case (Cons y ys)
  then have h: "\<not> is_space (hd xs)" and l: "\<not> is_space (last xs)"
    using assms by auto
  have "dropWhile is_space xs = xs"
    using h by (simp add: dropWhile_id)
  moreover have "dropWhile is_space (rev xs) = rev xs"
    using l by (simp add: dropWhile_id hd_rev)
  ultimately show ?thesis
    by (simp add: strip_def rstrip_def lstrip_def)
qed

lemma clean_text_no_blank_run:
  "successively (\<lambda>a b. \<not> (is_blank a \<and> is_blank b)) (clean_text s)"
proof -
  have "successively (\<lambda>a b. \<not> (is_blank a \<and> is_blank b)) (sub_newlines (sub_spaces s))"
  proof (rule sub_newlines_successively)
    show "successively (\<lambda>a b. \<not> (is_blank a \<and> is_blank b)) (sub_spaces s)"
      by (rule sub_spaces_no_blank_run)
  qed (simp_all add: is_blank_def)
  then show ?thesis
    unfolding clean_text_def by (rule successively_strip)
qed

lemma clean_text_no_tab: "TAB \<notin> set (clean_text s)"
proof -
  have "TAB \<notin> set (sub_newlines (sub_spaces s))"
    using sub_newlines_set [of "sub_spaces s"] sub_spaces_no_tab [of s] by auto
  then show ?thesis
    using set_strip [of "sub_newlines (sub_spaces s)"] by (auto simp: clean_text_def)
qed

lemma clean_text_ends:
  "clean_text s \<noteq> [] \<Longrightarrow> \<not> is_space (hd (clean_text s)) \<and> \<not> is_space (last (clean_text s))"
  unfolding clean_text_def by (rule strip_ends)

lemma clean_text_no_LF_LF:
  assumes "successively (\<lambda>a b. \<not> (a = LF \<and> b = CR)) s"
  shows "successively (\<lambda>a b. \<not> (a = LF \<and> b = LF)) (clean_text s)"
proof -
  have "successively (\<lambda>a b. \<not> (a = LF \<and> b = CR)) (sub_spaces s)"
    using assms by (intro sub_spaces_successively) simp_all
  then have "successively (\<lambda>a b. \<not> (a = LF \<and> b = LF)) (sub_newlines (sub_spaces s))"
    by (rule sub_newlines_no_LF_LF)
  then show ?thesis
    unfolding clean_text_def by (rule successively_strip)
qed

lemma clean_text_no_CR_LF:
  assumes "successively (\<lambda>a b. \<not> (a = CR \<and> b = CR)) s"
  shows "successively (\<lambda>a b. \<not> (a = CR \<and> b = LF)) (clean_text s)"
proof -
  have "successively (\<lambda>a b. \<not> (a = CR \<and> b = CR)) (sub_spaces s)"
    using assms by (intro sub_spaces_successively) simp_all
  then have "successively (\<lambda>a b. \<not> (a = CR \<and> b = LF)) (sub_newlines (sub_spaces s))"
    by (rule sub_newlines_no_CR_LF)
  then show ?thesis
    unfolding clean_text_def by (rule successively_strip)
qed

lemma clean_text_fixed:
  assumes "successively (\<lambda>a b. \<not> (is_blank a \<and> is_blank b)) t" and "TAB \<notin> set t"
    and "successively (\<lambda>a b. \<not> (a = LF \<and> b = LF)) t"
    and "successively (\<lambda>a b. \<not> (a = CR \<and> b = LF)) t"
    and "t = [] \<or> (\<not> is_space (hd t) \<and> \<not> is_space (last t))"
  shows "clean_text t = t"
  using assms by (simp add: clean_text_def sub_spaces_fixed sub_newlines_fixed strip_fixed)

text \<open>
  C5, as stated, fails on the blank lines. A line that holds only a space stays: the text
  \<open>a\n \nb\<close> is returned unchanged, and its middle line is a single space. And two
  line ends written \<open>\r\n\r\n\<close> become two consecutive line feeds.
\<close>

theorem clean_text_blank_lines:
  "lines_of (clean_text [97, LF, SP, LF, 98]) = [[97], [SP], [98]] \<and> is_space SP \<and>
   clean_text [97, CR, LF, CR, LF, 98] = [97, LF, LF, 98]"
  by (simp add: clean_text_def strip_def lstrip_def rstrip_def is_space_def is_blank_def)

text \<open>
  C5, amended: for every input string the output of \<open>clean_text\<close> has no two
  consecutive characters that are spaces or tabs (it has no tab at all) and no leading or
  trailing whitespace; and when no line feed of the input is directly followed by a
  carriage return, the output has no two consecutive line feeds. (A line holding only
  whitespace may remain.)
\<close>

theorem clean_text_normalised:
  "successively (\<lambda>a b. \<not> (is_blank a \<and> is_blank b)) (clean_text s) \<and>
   TAB \<notin> set (clean_text s) \<and>
   (clean_text s \<noteq> [] \<longrightarrow>
      \<not> is_space (hd (clean_text s)) \<and> \<not> is_space (last (clean_text s))) \<and>
   (successively (\<lambda>a b. \<not> (a = LF \<and> b = CR)) s \<longrightarrow>
      successively (\<lambda>a b. \<not> (a = LF \<and> b = LF)) (clean_text s))"
  using clean_text_no_blank_run [of s] clean_text_no_tab [of s] clean_text_ends [of s]
    clean_text_no_LF_LF [of s]
  by blast

theorem clean_text_normalised_witness:
  "clean_text [SP, SP, 97, SP, TAB, SP, 98, CR, LF, LF, LF, 99, SP, LF] = [97, SP, 98, LF, 99] \<and>
   successively (\<lambda>a b. \<not> (a = LF \<and> b = CR)) [SP, SP, 97, SP, TAB, SP, 98, CR, LF, LF, LF, 99, SP, LF] \<and>
   successively (\<lambda>a b. \<not> (a = LF \<and> b = LF))
     (clean_text [SP, SP, 97, SP, TAB, SP, 98, CR, LF, LF, LF, 99, SP, LF]) \<and>
   \<not> is_space (hd (clean_text [SP, SP, 97, SP, TAB, SP, 98, CR, LF, LF, LF, 99, SP, LF])) \<and>
   \<not> is_space (last (clean_text [SP, SP, 97, SP, TAB, SP, 98, CR, LF, LF, LF, 99, SP, LF]))"
  using clean_text_normalised [of "[SP, SP, 97, SP, TAB, SP, 98, CR, LF, LF, LF, 99, SP, LF]"]
  by (simp add: clean_text_def strip_def lstrip_def rstrip_def is_space_def is_blank_def)

text \<open>
  C9, as stated, fails. A carriage return in front of \<open>\r\n\<close> is left alone by the first
  pass and taken by the second: \<open>a\r\r\nb\<close> becomes \<open>a\r\nb\<close>, then \<open>a\nb\<close>.
  Likewise \<open>a\r\n\r\nb\<close> becomes \<open>a\n\nb\<close>, then \<open>a\nb\<close>.
\<close>

theorem clean_text_not_idempotent:
  "clean_text [97, CR, CR, LF, 98] = [97, CR, LF, 98] \<and>
   clean_text (clean_text [97, CR, CR, LF, 98]) = [97, LF, 98] \<and>
   clean_text (clean_text [97, CR, LF, CR, LF, 98]) \<noteq> clean_text [97, CR, LF, CR, LF, 98]"
  by (simp add: clean_text_def strip_def lstrip_def rstrip_def is_space_def is_blank_def)

text \<open>
  C9, amended: \<open>clean_text (clean_text s) = clean_text s\<close> for every string \<open>s\<close> in
  which no carriage return directly follows a carriage return or a line feed (so for
  every string without carriage returns, and for every text whose lines end in
  \<open>\r\n\<close> and are not empty).
\<close>

theorem clean_text_idempotent:
  assumes "successively (\<lambda>a b. \<not> ((a = CR \<or> a = LF) \<and> b = CR)) s"
  shows "clean_text (clean_text s) = clean_text s"
proof (rule clean_text_fixed)
  show "successively (\<lambda>a b. \<not> (is_blank a \<and> is_blank b)) (clean_text s)"
    by (rule clean_text_no_blank_run)
  show "TAB \<notin> set (clean_text s)"
    by (rule clean_text_no_tab)
  have "successively (\<lambda>a b. \<not> (a = LF \<and> b = CR)) s"
    using assms by (rule successively_mono) blast
  then show "successively (\<lambda>a b. \<not> (a = LF \<and> b = LF)) (clean_text s)"
    by (rule clean_text_no_LF_LF)
  have "successively (\<lambda>a b. \<not> (a = CR \<and> b = CR)) s"
    using assms by (rule successively_mono) blast
  then show "successively (\<lambda>a b. \<not> (a = CR \<and> b = LF)) (clean_text s)"
    by (rule clean_text_no_CR_LF)
  show "clean_text s = [] \<or>
      (\<not> is_space (hd (clean_text s)) \<and> \<not> is_space (last (clean_text s)))"
    using clean_text_ends [of s] by blast
qed

theorem clean_text_idempotent_witness:
  "successively (\<lambda>a b. \<not> ((a = CR \<or> a = LF) \<and> b = CR)) [SP, 97, TAB, SP, 98, CR, LF, LF, 99, LF] \<and>
   clean_text [SP, 97, TAB, SP, 98, CR, LF, LF, 99, LF] = [97, SP, 98, LF, 99] \<and>
   clean_text (clean_text [SP, 97, TAB, SP, 98, CR, LF, LF, 99, LF]) =
     clean_text [SP, 97, TAB, SP, 98, CR, LF, LF, 99, LF]"
proof -
  have h: "successively (\<lambda>a b. \<not> ((a = CR \<or> a = LF) \<and> b = CR))
      [SP, 97, TAB, SP, 98, CR, LF, LF, 99, LF]"
    by simp
  have v: "clean_text [SP, 97, TAB, SP, 98, CR, LF, LF, 99, LF] = [97, SP, 98, LF, 99]"
    by (simp add: clean_text_def strip_def lstrip_def rstrip_def is_space_def is_blank_def)
  show ?thesis
    using h v clean_text_idempotent [OF h] by simp
qed

section \<open>Properties of \<open>discover_paths\<close>\<close>

lemma removeAll_filter: "removeAll x (filter P xs) = filter (\<lambda>y. P y \<and> y \<noteq> x) xs"
  by (induction xs) auto

lemma fold_fromkeys:
  "fold (\<lambda>x keys. if x \<in> set keys then keys else keys @ [x]) xs acc
     = acc @ first_occurrences (filter (\<lambda>x. x \<notin> set acc) xs)"
proof (induction xs arbitrary: acc)
  case Nil
  show ?case by simp
next
  case (Cons x xs)
  show ?case
  proof (cases "x \<in> set acc")
    case True
    then show ?thesis by (simp add: Cons.IH)
  next
    case False
    have "filter (\<lambda>y. y \<notin> set (acc @ [x])) xs = filter (\<lambda>y. y \<notin> set acc \<and> y \<noteq> x) xs"
      by (rule filter_cong) auto
    then show ?thesis
      using False by (simp add: Cons.IH removeAll_filter)
  qed
qed

lemma fromkeys_first_occurrences: "fromkeys xs = first_occurrences xs"
  by (simp add: fromkeys_def fold_fromkeys)

lemma set_first_occurrences: "set (first_occurrences xs) = set xs"
  by (induction xs rule: first_occurrences.induct) auto

lemma distinct_first_occurrences: "distinct (first_occurrences xs)"
  by (induction xs rule: first_occurrences.induct) (auto simp: set_first_occurrences)

lemma first_index_less:
  "first_index xs p < first_index xs q \<longleftrightarrow> p \<in> set (takeWhile (\<lambda>y. y \<noteq> q) xs)"
  unfolding first_index_def by (induction xs) auto

lemma takeWhile_removeAll:
  "q \<noteq> x \<Longrightarrow> takeWhile (\<lambda>y. y \<noteq> q) (removeAll x xs) = removeAll x (takeWhile (\<lambda>y. y \<noteq> q) xs)"
  by (induction xs) auto

lemma first_occurrences_order:
  "sorted_wrt (\<lambda>p q. first_index xs p < first_index xs q) (first_occurrences xs)"
proof (induction xs rule: first_occurrences.induct)
  case 1
  show ?case by simp
next
  case (2 x xs)
  let ?r = "first_occurrences (removeAll x xs)"
  have others: "q \<noteq> x" if "q \<in> set ?r" for q
    using that by (simp add: set_first_occurrences)
  have head: "first_index (x # xs) x < first_index (x # xs) q" if "q \<in> set ?r" for q
    using others [OF that] by (simp add: first_index_def)
  have step: "first_index (x # xs) p < first_index (x # xs) q"
    if "p \<in> set ?r" and "q \<in> set ?r"
      and "first_index (removeAll x xs) p < first_index (removeAll x xs) q" for p q
  proof -
    have "p \<in> set (removeAll x (takeWhile (\<lambda>y. y \<noteq> q) xs))"
      using that others [of q] by (simp add: first_index_less takeWhile_removeAll)
    then have "p \<in> set (takeWhile (\<lambda>y. y \<noteq> q) (x # xs))"
      using others [of q] that(2) by auto
    then show ?thesis by (simp only: first_index_less)
  qed
  have "sorted_wrt (\<lambda>p q. first_index (x # xs) p < first_index (x # xs) q) ?r"
    using 2 step by (rule sorted_wrt_mono_rel [rotated])
  then show ?case
    using head by simp
qed

text \<open>
  C4: for every sequence of patterns the list returned by \<open>discover_paths\<close> has no
  duplicate, holds exactly the paths that were found, and lists them in the order of
  their first occurrences: a path stands before another one in the result exactly when
  it was first found earlier.
\<close>

theorem discover_paths_dedupe:
  "distinct (discover_paths w patterns) \<and>
   set (discover_paths w patterns) = set (found_paths w patterns) \<and>
   sorted_wrt (\<lambda>p q. first_index (found_paths w patterns) p < first_index (found_paths w patterns) q)
     (discover_paths w patterns)"
  by (simp add: discover_paths_def fromkeys_first_occurrences distinct_first_occurrences
      set_first_occurrences first_occurrences_order)

theorem discover_paths_dedupe_witness:
  "discover_paths example_world [py ''a.*'', py ''*'']
     = [py ''/w/a.pdf'', py ''/w/notes.txt'', py ''/w/B.DOCX'', py ''/w/t.xlsx''] \<and>
   found_paths example_world [py ''a.*'', py ''*'']
     = [py ''/w/a.pdf'', py ''/w/a.pdf'', py ''/w/notes.txt'', py ''/w/B.DOCX'', py ''/w/t.xlsx''] \<and>
   distinct (discover_paths example_world [py ''a.*'', py ''*''])"
proof -
  have f: "found_paths example_world [py ''a.*'', py ''*'']
      = [py ''/w/a.pdf'', py ''/w/a.pdf'', py ''/w/notes.txt'', py ''/w/B.DOCX'', py ''/w/t.xlsx'']"
    by (simp add: found_paths_def example_world_def py_def)
  have d: "discover_paths example_world [py ''a.*'', py ''*'']
      = [py ''/w/a.pdf'', py ''/w/notes.txt'', py ''/w/B.DOCX'', py ''/w/t.xlsx'']"
    unfolding discover_paths_def f by (simp add: fromkeys_def py_def)
  show ?thesis
    using discover_paths_dedupe [of example_world "[py ''a.*'', py ''*'']"] f d by simp
qed

section \<open>Properties of the readers\<close>

lemma slice_to_length: "0 \<le> n \<Longrightarrow> int (length (slice_to s n)) \<le> n"
  by (simp add: slice_to_def)

lemma read_pdf_try_length:
  "0 \<le> max_chars \<Longrightarrow> read_pdf_try reader p max_chars = Inr s \<Longrightarrow> int (length s) \<le> max_chars"
  by (auto simp: read_pdf_try_def slice_to_length split: sum.splits)

lemma read_docx_try_length:
  "0 \<le> max_chars \<Longrightarrow> read_docx_try document p max_chars = Inr s \<Longrightarrow> int (length s) \<le> max_chars"
  by (auto simp: read_docx_try_def slice_to_length Let_def split: sum.splits)

lemma read_xlsx_try_length:
  "0 \<le> max_chars \<Longrightarrow> read_xlsx_try workbook p max_chars = Inr s \<Longrightarrow> int (length s) \<le> max_chars"
  by (auto simp: read_xlsx_try_def slice_to_length split: sum.splits)

lemma load_evidence_paths:
  "map path (load_evidence l w ps per_file)
     = filter (\<lambda>p. handlers (str_lower l (path_suffix l p)) \<noteq> None) ps"
  by (induction ps) (auto split: option.splits)

text \<open>
  C2, as stated, fails on the two branches it names: the placeholder strings are returned
  as they are. With a budget of 10, a missing DOCX library gives the 21 characters of
  \<open>(Install python-docx)\<close>, and a PDF that cannot be parsed gives the error text.
\<close>

theorem placeholder_over_budget:
  "\<not> int (length (read_docx example_world (py ''/w/B.DOCX'') 10)) \<le> 10 \<and>
   \<not> int (length (read_pdf example_world (py ''/w/bad.pdf'') 10)) \<le> 10"
  by (simp add: read_docx_def read_pdf_def read_pdf_try_def example_world_def py_def)

text \<open>
  C2, amended: for every file path and every budget \<open>max_chars \<ge> 0\<close>, when the parsing
  library is present and the extraction raises no exception, the string returned by
  \<open>read_pdf\<close>, \<open>read_docx\<close> and \<open>read_xlsx\<close> has length at most \<open>max_chars\<close>. (The
  placeholder strings of the other two branches are not truncated.)
\<close>

theorem extraction_within_budget:
  "0 \<le> max_chars \<Longrightarrow>
   (PdfReader w = Some reader \<and> read_pdf_try reader p max_chars = Inr s \<longrightarrow>
      read_pdf w p max_chars = s \<and> int (length s) \<le> max_chars) \<and>
   (docx_Document w = Some document \<and> read_docx_try document p max_chars = Inr t \<longrightarrow>
      read_docx w p max_chars = t \<and> int (length t) \<le> max_chars) \<and>
   (load_workbook w = Some workbook \<and> read_xlsx_try workbook p max_chars = Inr u \<longrightarrow>
      read_xlsx w p max_chars = u \<and> int (length u) \<le> max_chars)"
  using read_pdf_try_length [of max_chars reader p s]
    read_docx_try_length [of max_chars document p t]
    read_xlsx_try_length [of max_chars workbook p u]
  by (simp add: read_pdf_def read_docx_def read_xlsx_def)

theorem extraction_within_budget_witness:
  "(0::int) \<le> 8 \<and>
   read_pdf example_world (py ''/w/a.pdf'') 8 = py ''[p1] Hel'' \<and>
   int (length (read_pdf example_world (py ''/w/a.pdf'') 8)) \<le> 8 \<and>
   read_xlsx example_world (py ''/w/t.xlsx'') 8 = py ''[S1] id,'' \<and>
   int (length (read_xlsx example_world (py ''/w/t.xlsx'') 8)) \<le> 8"
proof -
  have pdf: "read_pdf_try (the (PdfReader example_world)) (py ''/w/a.pdf'') 8 = Inr (py ''[p1] Hel'')"
    by (simp add: example_world_def read_pdf_try_def enumerate_eq_zip py_def sum_len_def
        strip_def lstrip_def rstrip_def is_space_def clean_text_def is_blank_def
        slice_to_def str_int_def str_nat.simps)
  have xlsx: "read_xlsx_try (the (load_workbook example_world)) (py ''/w/t.xlsx'') 8
      = Inr (py ''[S1] id,'')"
    by (simp add: example_world_def read_xlsx_try_def py_def sum_len_def
        strip_def lstrip_def rstrip_def is_space_def clean_text_def is_blank_def
        slice_to_def str_int_def str_nat.simps)
  have lib: "PdfReader example_world = Some (the (PdfReader example_world))"
    "load_workbook example_world = Some (the (load_workbook example_world))"
    by (simp_all add: example_world_def)
  show ?thesis
    using extraction_within_budget [where max_chars = 8 and w = example_world
        and reader = "the (PdfReader example_world)" and p = "py ''/w/a.pdf''"
        and s = "py ''[p1] Hel''"]
      extraction_within_budget [where max_chars = 8 and w = example_world
        and workbook = "the (load_workbook example_world)" and p = "py ''/w/t.xlsx''"
        and u = "py ''[S1] id,''"]
      pdf xlsx lib
    by simp
qed

text \<open>
  C3: no reader lets an exception escape. When the library is missing the reader returns
  the \<open>(Install ...)\<close> placeholder; when the \<open>try\<close> block raises, the reader returns the
  \<open>(... error: ...)\<close> placeholder with the text of the exception. So \<open>load_evidence\<close>
  yields one item for every queued path with a supported extension, whatever happens
  while any of them is read.
\<close>

theorem extraction_never_raises:
  "(PdfReader w = None \<longrightarrow> read_pdf w p max_chars = py ''(Install pypdf)'') \<and>
   (PdfReader w = Some reader \<and> read_pdf_try reader p max_chars = Inl e \<longrightarrow>
      read_pdf w p max_chars = py ''(PDF error: '' @ str_exn e @ py '')'') \<and>
   (docx_Document w = None \<longrightarrow> read_docx w p max_chars = py ''(Install python-docx)'') \<and>
   (docx_Document w = Some document \<and> read_docx_try document p max_chars = Inl e \<longrightarrow>
      read_docx w p max_chars = py ''(DOCX error: '' @ str_exn e @ py '')'') \<and>
   (load_workbook w = None \<longrightarrow> read_xlsx w p max_chars = py ''(Install openpyxl)'') \<and>
   (load_workbook w = Some workbook \<and> read_xlsx_try workbook p max_chars = Inl e \<longrightarrow>
      read_xlsx w p max_chars = py ''(XLSX error: '' @ str_exn e @ py '')'') \<and>
   map path (load_evidence l w ps per_file)
     = filter (\<lambda>p. handlers (str_lower l (path_suffix l p)) \<noteq> None) ps"
  by (simp add: read_pdf_def read_docx_def read_xlsx_def load_evidence_paths)

theorem extraction_never_raises_witness:
  "read_pdf (example_world\<lparr>PdfReader := None\<rparr>) (py ''/w/a.pdf'') 1600 = py ''(Install pypdf)'' \<and>
   read_pdf example_world (py ''/w/bad.pdf'') 1600 = py ''(PDF error: EOF marker not found)'' \<and>
   read_docx example_world (py ''/w/B.DOCX'') 1600 = py ''(Install python-docx)'' \<and>
   read_docx (example_world\<lparr>docx_Document := Some (\<lambda>p. Inl (Exception (py ''BadZipFile'') (py ''not a zip file'')))\<rparr>)
     (py ''/w/B.DOCX'') 1600 = py ''(DOCX error: not a zip file)'' \<and>
   read_xlsx (example_world\<lparr>load_workbook := None\<rparr>) (py ''/w/t.xlsx'') 1600
     = py ''(Install openpyxl)'' \<and>
   read_xlsx (example_world\<lparr>load_workbook := Some (\<lambda>p. Inr
       [\<lparr>ws_title = py ''S1'',
         iter_rows = (\<lambda>lo hi. [Inr [StrValue (py ''id'')], Inl (Exception (py ''ValueError'') (py ''bad row''))])\<rparr>])\<rparr>)
     (py ''/w/t.xlsx'') 1600 = py ''(XLSX error: bad row)'' \<and>
   map path (load_evidence example_lib example_world
       [py ''/w/bad.pdf'', py ''/w/notes.txt'', py ''/w/B.DOCX''] 1600)
     = [py ''/w/bad.pdf'', py ''/w/B.DOCX'']"
proof -
  let ?w2 = "example_world\<lparr>docx_Document := Some (\<lambda>p. Inl (Exception (py ''BadZipFile'') (py ''not a zip file'')))\<rparr>"
  let ?w3 = "example_world\<lparr>load_workbook := Some (\<lambda>p. Inr
       [\<lparr>ws_title = py ''S1'',
         iter_rows = (\<lambda>lo hi. [Inr [StrValue (py ''id'')], Inl (Exception (py ''ValueError'') (py ''bad row''))])\<rparr>])\<rparr>"
  have h1: "PdfReader (example_world\<lparr>PdfReader := None\<rparr>) = None"
    by simp
  have h2: "PdfReader example_world = Some (the (PdfReader example_world)) \<and>
      read_pdf_try (the (PdfReader example_world)) (py ''/w/bad.pdf'') 1600
        = Inl (Exception (py ''PdfReadError'') (py ''EOF marker not found''))"
    by (simp add: example_world_def read_pdf_try_def py_def)
  have h3: "docx_Document example_world = None"
    by (simp add: example_world_def)
  have h4: "docx_Document ?w2 = Some (the (docx_Document ?w2)) \<and>
      read_docx_try (the (docx_Document ?w2)) (py ''/w/B.DOCX'') 1600
        = Inl (Exception (py ''BadZipFile'') (py ''not a zip file''))"
    by (simp add: read_docx_try_def)
  have h5: "load_workbook (example_world\<lparr>load_workbook := None\<rparr>) = None"
    by simp
  have h6: "load_workbook ?w3 = Some (the (load_workbook ?w3)) \<and>
      read_xlsx_try (the (load_workbook ?w3)) (py ''/w/t.xlsx'') 1600
        = Inl (Exception (py ''ValueError'') (py ''bad row''))"
    by (simp add: read_xlsx_try_def sum_len_def py_def)
  have h7: "filter (\<lambda>p. handlers (str_lower example_lib (path_suffix example_lib p)) \<noteq> None)
      [py ''/w/bad.pdf'', py ''/w/notes.txt'', py ''/w/B.DOCX'']
      = [py ''/w/bad.pdf'', py ''/w/B.DOCX'']"
    by (simp add: handlers_def example_lib_def ascii_lower_def posix_suffix_def posix_name_def
        py_def Let_def)
  show ?thesis
    using h1 h2 h3 h4 h5 h6 h7
      extraction_never_raises [where w = "example_world\<lparr>PdfReader := None\<rparr>"
        and p = "py ''/w/a.pdf''" and max_chars = 1600]
      extraction_never_raises [where w = example_world and p = "py ''/w/bad.pdf''"
        and max_chars = 1600 and reader = "the (PdfReader example_world)"
        and e = "Exception (py ''PdfReadError'') (py ''EOF marker not found'')"]
      extraction_never_raises [where w = example_world and p = "py ''/w/B.DOCX''"
        and max_chars = 1600 and l = example_lib
        and ps = "[py ''/w/bad.pdf'', py ''/w/notes.txt'', py ''/w/B.DOCX'']" and per_file = 1600]
      extraction_never_raises [where w = ?w2 and p = "py ''/w/B.DOCX''"
        and max_chars = 1600 and document = "the (docx_Document ?w2)"
        and e = "Exception (py ''BadZipFile'') (py ''not a zip file'')"]
      extraction_never_raises [where w = "example_world\<lparr>load_workbook := None\<rparr>"
        and p = "py ''/w/t.xlsx''" and max_chars = 1600]
      extraction_never_raises [where w = ?w3 and p = "py ''/w/t.xlsx''"
        and max_chars = 1600 and workbook = "the (load_workbook ?w3)"
        and e = "Exception (py ''ValueError'') (py ''bad row'')"]
    by (simp add: py_def)
qed

section \<open>Properties of the command loop\<close>

lemma queue_print [simp]: "queue (print line st) = queue st"
  by (simp add: print_def)

lemma out_print [simp]: "out (print line st) = out st @ [line]"
  by (simp add: print_def)

lemma queue_fold:
  assumes "\<And>x s. queue (f x s) = queue s"
  shows "queue (fold f xs st) = queue st"
  by (induction xs arbitrary: st) (simp_all add: assms)

lemma out_fold:
  assumes "\<And>x s. prefix (out s) (out (f x s))"
  shows "prefix (out st) (out (fold f xs st))"
proof (induction xs arbitrary: st)
  case Nil
  show ?case by simp
next
  case (Cons x xs)
  have "prefix (out st) (out (f x st))"
    by (rule assms)
  also have "prefix (out (f x st)) (out (fold f xs (f x st)))"
    by (rule Cons)
  finally show ?case by simp
qed

lemma prefix_print: "prefix xs (out st) \<Longrightarrow> prefix xs (out (print line st))"
  by (auto simp: prefix_def)

lemma queue_run_audit: "queue (snd (run_audit w items st)) = queue st"
  by (simp add: run_audit_def Let_def queue_fold split: prod.splits sum.splits)

lemma out_run_audit: "prefix (out st) (out (snd (run_audit w items st)))"
proof (cases "items = []")
  case True
  then show ?thesis by (simp add: run_audit_def)
next
  case False
  obtain ctx filenames where b: "build_context items 10000 = (ctx, filenames)"
    by (cases "build_context items 10000")
  define st1 where "st1 = print (py ''Starting audit...'')
      (print (py ''Context length: '' @ str_int (int (length ctx)) @ py '' chars'') st)"
  have p1: "prefix (out st) (out st1)"
    by (simp add: st1_def prefix_print)
  show ?thesis
  proof (cases "team_run w ctx filenames")
    case (Inl e)
    then show ?thesis
      using False b p1 by (simp add: run_audit_def st1_def)
  next
    case (Inr messages)
    define st2 where "st2 = print (py ''Tokens - Total: ''
          @ str_int (usage_total (py ''input_tokens'') messages
                     + usage_total (py ''output_tokens'') messages)
          @ py '', In: '' @ str_int (usage_total (py ''input_tokens'') messages)
          @ py '', Out: '' @ str_int (usage_total (py ''output_tokens'') messages))
        (print (LF # py ''=== IEC 62304 Audit Results ==='') st1)"
    have p2: "prefix (out st) (out st2)"
      unfolding st2_def by (intro prefix_print p1)
    have "prefix (out st2) (out (fold (\<lambda>m s. print (replicate 50 45)
            (print (py ''['' @ msg_source m @ py '']: '' @ msg_content m) s)) messages st2))"
      by (rule out_fold) simp
    then have "prefix (out st) (out (fold (\<lambda>m s. print (replicate 50 45)
            (print (py ''['' @ msg_source m @ py '']: '' @ msg_content m) s)) messages st2))"
      using p2 by (rule prefix_order.trans [rotated])
    then show ?thesis
      using False b Inr by (simp add: run_audit_def st1_def st2_def Let_def)
  qed
qed

lemma distinct_discover_paths: "distinct (discover_paths w patterns)"
  by (simp add: discover_paths_def fromkeys_first_occurrences distinct_first_occurrences)

lemma command_words:
  "py ''add'' \<notin> {py ''quit'', py ''exit''}" "py ''list'' \<notin> {py ''quit'', py ''exit''}"
  "py ''clear'' \<notin> {py ''quit'', py ''exit''}" "py ''run'' \<notin> {py ''quit'', py ''exit''}"
  "py ''list'' \<noteq> py ''add''" "py ''clear'' \<noteq> py ''add''" "py ''run'' \<noteq> py ''add''"
  "py ''clear'' \<noteq> py ''list''" "py ''run'' \<noteq> py ''list''" "py ''run'' \<noteq> py ''clear''"
  by (simp_all add: py_def)

lemma discover_paths_Nil: "discover_paths w [] = []"
  by (simp add: discover_paths_def found_paths_def fromkeys_def)

lemma queue_list_fold:
  "queue (fold (\<lambda>(i, p) s. print (fmt_2d (int i) @ py ''. '' @ p) s) ips st) = queue st"
  by (rule queue_fold) (simp split: prod.splits)

lemma out_list_fold:
  "prefix (out st) (out (fold (\<lambda>(i, p) s. print (fmt_2d (int i) @ py ''. '' @ p) s) ips st))"
  by (rule out_fold) (simp split: prod.splits)

lemma dispatch_add:
  "dispatch l w (py ''add'') args st =
     (if args = [] then (Continue, print (py ''Usage: add <files>'') st)
      else if filter (supported l) (discover_paths w args) \<noteq> [] then
        (Continue,
         print (py ''Added '' @ str_int (int (length (filter (supported l) (discover_paths w args))))
                  @ py '' files'')
           (st\<lparr>queue := queue st @ filter (\<lambda>p. p \<notin> set (queue st))
                                     (filter (supported l) (discover_paths w args))\<rparr>))
      else (Continue, print (py ''No supported files found'') st))"
  using command_words(1) by (simp add: dispatch_def Let_def del: filter_filter)

lemma dispatch_clear:
  "dispatch l w (py ''clear'') args st = (Continue, print (py ''Queue cleared'') (st\<lparr>queue := []\<rparr>))"
  using command_words by (simp add: dispatch_def)

lemma dispatch_list:
  "dispatch l w (py ''list'') args st =
     (if queue st \<noteq> [] then
        (Continue,
         fold (\<lambda>(i, p) s. print (fmt_2d (int i) @ py ''. '' @ p) s) (enumerate 1 (queue st)) st)
      else (Continue, print (py ''Queue empty'') st))"
  using command_words by (simp add: dispatch_def)

lemma dispatch_run:
  "dispatch l w (py ''run'') args st =
     (if queue st \<noteq> [] then run_audit w (load_evidence l w (queue st) 1600) st
      else (Continue, print (py ''Queue empty'') st))"
  using command_words by (simp add: dispatch_def)

lemma dispatch_other:
  "cmd \<noteq> py ''add'' \<Longrightarrow> cmd \<noteq> py ''list'' \<Longrightarrow> cmd \<noteq> py ''clear'' \<Longrightarrow> cmd \<noteq> py ''run'' \<Longrightarrow>
   dispatch l w cmd args st =
     (if cmd \<in> {py ''quit'', py ''exit''} then (Break, st)
      else (Continue, print (py ''Unknown command'') st))"
  by (simp add: dispatch_def)

lemma queue_dispatch_add:
  "queue (snd (dispatch l w (py ''add'') args st)) =
     queue st @ filter (\<lambda>p. p \<notin> set (queue st)) (filter (supported l) (discover_paths w args))"
proof (cases "args = []")
  case True
  then show ?thesis by (simp add: dispatch_add discover_paths_Nil)
next
  case False
  show ?thesis
  proof (cases "filter (supported l) (discover_paths w args) = []")
    case True
    show ?thesis
      unfolding dispatch_add True using False by simp
  next
    case nonempty: False
    show ?thesis
      unfolding dispatch_add using False nonempty by (simp del: filter_filter)
  qed
qed

lemma queue_dispatch:
  "queue (snd (dispatch l w cmd args st)) =
     (if cmd = py ''add'' then
        queue st @ filter (\<lambda>p. p \<notin> set (queue st)) (filter (supported l) (discover_paths w args))
      else if cmd = py ''clear'' then []
      else queue st)"
proof -
  consider (add) "cmd = py ''add''" | (clear) "cmd = py ''clear''" | (list) "cmd = py ''list''"
    | (run) "cmd = py ''run''"
    | (other) "cmd \<noteq> py ''add''" "cmd \<noteq> py ''list''" "cmd \<noteq> py ''clear''" "cmd \<noteq> py ''run''"
    by blast
  then show ?thesis
  proof cases
    case add
    then show ?thesis by (simp add: queue_dispatch_add del: filter_filter)
  next
    case clear
    then show ?thesis using command_words by (simp add: dispatch_clear)
  next
    case list
    then show ?thesis using command_words by (simp add: dispatch_list queue_list_fold)
  next
    case run
    then show ?thesis using command_words by (simp add: dispatch_run queue_run_audit)
  next
    case other
    then show ?thesis by (simp add: dispatch_other)
  qed
qed

lemma out_dispatch: "prefix (out st) (out (snd (dispatch l w cmd args st)))"
proof -
  consider (add) "cmd = py ''add''" | (clear) "cmd = py ''clear''" | (list) "cmd = py ''list''"
    | (run) "cmd = py ''run''"
    | (other) "cmd \<noteq> py ''add''" "cmd \<noteq> py ''list''" "cmd \<noteq> py ''clear''" "cmd \<noteq> py ''run''"
    by blast
  then show ?thesis
  proof cases
    case add
    then show ?thesis by (simp add: dispatch_add prefix_def del: filter_filter)
  next
    case clear
    then show ?thesis by (simp add: dispatch_clear prefix_def)
  next
    case list
    then show ?thesis using out_list_fold [of st] by (simp add: dispatch_list prefix_def)
  next
    case run
    then show ?thesis using out_run_audit [of st w] by (simp add: dispatch_run prefix_def)
  next
    case other
    then show ?thesis by (simp add: dispatch_other prefix_def)
  qed
qed

lemma queue_step_cases:
  "queue (snd (step l w line st)) = queue st \<or>
   (\<exists>cmd args. queue (snd (step l w line st)) = queue (snd (dispatch l w cmd args st)))"
  by (auto simp: step_def Let_def split: list.splits)

lemma out_step: "prefix (out st) (out (snd (step l w line st)))"
  using out_dispatch by (simp add: step_def Let_def split: list.splits)

lemma distinct_dispatch:
  "distinct (queue st) \<Longrightarrow> distinct (queue (snd (dispatch l w cmd args st)))"
  by (auto simp: queue_dispatch distinct_discover_paths)

lemma distinct_step:
  "distinct (queue st) \<Longrightarrow> distinct (queue (snd (step l w line st)))"
  using queue_step_cases [of l w line st] distinct_dispatch [of st l w] by auto

lemma supported_dispatch:
  "\<forall>p\<in>set (queue st). supported l p \<Longrightarrow>
   \<forall>p\<in>set (queue (snd (dispatch l w cmd args st))). supported l p"
  by (auto simp: queue_dispatch)

lemma supported_step:
  "\<forall>p\<in>set (queue st). supported l p \<Longrightarrow>
   \<forall>p\<in>set (queue (snd (step l w line st))). supported l p"
  using queue_step_cases [of l w line st] supported_dispatch [of st l w] by auto

lemma session_invariant:
  assumes "\<And>w line st. P (queue st) \<Longrightarrow> P (queue (snd (step l w line st)))"
  shows "P (queue st) \<Longrightarrow> P (queue (snd (session l inputs st)))"
proof (induction inputs arbitrary: st)
  case Nil
  then show ?case by simp
next
  case (Cons a inputs)
  obtain w line where a: "a = (w, line)" by (cases a)
  obtain c st' where s: "step l w line st = (c, st')" by (cases "step l w line st")
  have "P (queue st')"
    using assms [OF Cons.prems, of w line] s by simp
  then show ?case
    using Cons.IH [of st'] a s by (cases c) simp_all
qed

lemma queue_main: "queue (snd (main l inputs)) = queue (snd (session l inputs \<lparr>queue = [], out = banner\<rparr>))"
  by (simp add: main_def split: prod.splits control.splits)

lemma out_session: "prefix (out st) (out (snd (session l inputs st)))"
proof (induction inputs arbitrary: st)
  case Nil
  show ?case by simp
next
  case (Cons a inputs)
  obtain w line where a: "a = (w, line)" by (cases a)
  obtain c st' where s: "step l w line st = (c, st')" by (cases "step l w line st")
  have p: "prefix (out st) (out st')"
    using out_step [of st l w line] s by simp
  also have "prefix (out st') (out (snd (session l inputs st')))"
    by (rule Cons)
  finally have q: "prefix (out st) (out (snd (session l inputs st')))" .
  show ?case
    using a s p q by (cases c) simp_all
qed

lemma out_main: "prefix banner (out (snd (main l inputs)))"
proof -
  have "prefix banner (out (snd (session l inputs \<lparr>queue = [], out = banner\<rparr>)))"
    using out_session [of "\<lparr>queue = [], out = banner\<rparr>" l inputs] by simp
  then show ?thesis
    by (auto simp: main_def prefix_print split: prod.splits control.splits)
qed

lemmas eval_simps = step_def Let_def strip_def lstrip_def rstrip_def is_space_def split_ws.simps
  example_lib_def example_world_def ascii_lower_def py_def dispatch_def discover_paths_def
  found_paths_def fromkeys_def supported_def posix_suffix_def posix_name_def print_def
  str_int_def str_nat.simps

text \<open>
  C6: in every session the queue is a duplicate-free list. Each pass of the loop keeps it
  duplicate-free; \<open>add\<close> leaves the queued paths where they are and appends, in the
  order of discovery, the supported paths that are not queued yet; \<open>clear\<close> empties the
  queue; \<open>list\<close> and \<open>run\<close> leave it as it is.
\<close>

theorem queue_ordered_duplicate_free:
  "distinct (queue (snd (main l inputs))) \<and>
   (distinct (queue st) \<longrightarrow> distinct (queue (snd (step l w line st)))) \<and>
   queue (snd (dispatch l w (py ''add'') args st))
     = queue st @ filter (\<lambda>p. p \<notin> set (queue st)) (filter (supported l) (discover_paths w args)) \<and>
   queue (snd (dispatch l w (py ''clear'') args st)) = [] \<and>
   queue (snd (dispatch l w (py ''list'') args st)) = queue st \<and>
   queue (snd (dispatch l w (py ''run'') args st)) = queue st"
proof -
  have "distinct (queue (snd (session l inputs \<lparr>queue = [], out = banner\<rparr>)))"
    by (rule session_invariant [where P = distinct]) (simp_all add: distinct_step)
  then have "distinct (queue (snd (main l inputs)))"
    by (simp only: queue_main)
  then show ?thesis
    using command_words by (simp add: distinct_step queue_dispatch del: filter_filter)
qed

theorem queue_ordered_duplicate_free_witness:
  "distinct (queue \<lparr>queue = [py ''/w/a.pdf''], out = []\<rparr>) \<and>
   step example_lib example_world (py ''add *'') \<lparr>queue = [py ''/w/a.pdf''], out = []\<rparr>
     = (Continue, \<lparr>queue = [py ''/w/a.pdf'', py ''/w/B.DOCX'', py ''/w/t.xlsx''],
                   out = [py ''Added 3 files'']\<rparr>) \<and>
   distinct (queue (snd (step example_lib example_world (py ''add *'')
     \<lparr>queue = [py ''/w/a.pdf''], out = []\<rparr>)))"
proof -
  have h: "distinct (queue \<lparr>queue = [py ''/w/a.pdf''], out = []\<rparr>)"
    by simp
  have v: "step example_lib example_world (py ''add *'') \<lparr>queue = [py ''/w/a.pdf''], out = []\<rparr>
     = (Continue, \<lparr>queue = [py ''/w/a.pdf'', py ''/w/B.DOCX'', py ''/w/t.xlsx''],
                   out = [py ''Added 3 files'']\<rparr>)"
    by (simp add: eval_simps)
  show ?thesis
    using h v queue_ordered_duplicate_free [where st = "\<lparr>queue = [py ''/w/a.pdf''], out = []\<rparr>"
        and l = example_lib and w = example_world and line = "py ''add *''"]
    by blast
qed

text \<open>
  C7: only paths whose lower-cased extension is \<open>.pdf\<close>, \<open>.docx\<close> or \<open>.xlsx\<close> enter
  the queue. After an \<open>add\<close> the queue holds what it held and the discovered paths with
  such an extension, and nothing else; so in every session every queued path has such an
  extension.
\<close>

theorem queue_only_supported:
  "(\<forall>p\<in>set (queue (snd (main l inputs))).
      str_lower l (path_suffix l p) \<in> {py ''.pdf'', py ''.docx'', py ''.xlsx''}) \<and>
   set (queue (snd (dispatch l w (py ''add'') args st)))
     = set (queue st) \<union>
       {p \<in> set (discover_paths w args).
          str_lower l (path_suffix l p) \<in> {py ''.pdf'', py ''.docx'', py ''.xlsx''}}"
proof -
  have "\<forall>p\<in>set (queue (snd (session l inputs \<lparr>queue = [], out = banner\<rparr>))). supported l p"
    by (rule session_invariant [where P = "\<lambda>q. \<forall>p\<in>set q. supported l p"])
      (simp_all add: supported_step)
  then have "\<forall>p\<in>set (queue (snd (main l inputs))). supported l p"
    by (simp only: queue_main)
  moreover have "set (queue (snd (dispatch l w (py ''add'') args st)))
     = set (queue st) \<union> {p \<in> set (discover_paths w args). supported l p}"
    by (auto simp: queue_dispatch)
  ultimately show ?thesis
    by (simp only: supported_def)
qed

theorem queue_only_supported_witness:
  "main example_lib [(example_world, py ''add *'')]
     = (Break, \<lparr>queue = [py ''/w/a.pdf'', py ''/w/B.DOCX'', py ''/w/t.xlsx''],
                out = banner @ [py ''Added 3 files'', LF # py ''Bye.'']\<rparr>) \<and>
   discover_paths example_world [py ''*'']
     = [py ''/w/a.pdf'', py ''/w/notes.txt'', py ''/w/B.DOCX'', py ''/w/t.xlsx''] \<and>
   str_lower example_lib (path_suffix example_lib (py ''/w/B.DOCX'')) = py ''.docx'' \<and>
   str_lower example_lib (path_suffix example_lib (py ''/w/B.DOCX''))
     \<in> {py ''.pdf'', py ''.docx'', py ''.xlsx''}"
proof -
  have m: "main example_lib [(example_world, py ''add *'')]
     = (Break, \<lparr>queue = [py ''/w/a.pdf'', py ''/w/B.DOCX'', py ''/w/t.xlsx''],
                out = banner @ [py ''Added 3 files'', LF # py ''Bye.'']\<rparr>)"
    by (simp add: main_def eval_simps)
  have d: "discover_paths example_world [py ''*'']
     = [py ''/w/a.pdf'', py ''/w/notes.txt'', py ''/w/B.DOCX'', py ''/w/t.xlsx'']"
    by (simp add: eval_simps)
  have s: "str_lower example_lib (path_suffix example_lib (py ''/w/B.DOCX'')) = py ''.docx''"
    by (simp add: eval_simps)
  have "py ''/w/B.DOCX'' \<in> set (queue (snd (main example_lib [(example_world, py ''add *'')])))"
    unfolding m by simp
  then have "str_lower example_lib (path_suffix example_lib (py ''/w/B.DOCX''))
     \<in> {py ''.pdf'', py ''.docx'', py ''.xlsx''}"
    using queue_only_supported [of example_lib "[(example_world, py ''add *'')]"] by blast
  then show ?thesis
    using m d s by blast
qed

text \<open>
  C10: when an \<open>add\<close> command with arguments discovers at least one supported file, the
  line it prints is \<open>Added N files\<close> with \<open>N\<close> the number of supported files discovered.
  The queue grows by the number of those that were not queued, which is at most \<open>N\<close>,
  and less than \<open>N\<close> as soon as one of them was queued already.
\<close>

theorem added_count_is_found_count:
  assumes "args \<noteq> []" and "found = filter (supported l) (discover_paths w args)"
    and "found \<noteq> []"
  shows "out (snd (dispatch l w (py ''add'') args st))
           = out st @ [py ''Added '' @ str_int (int (length found)) @ py '' files''] \<and>
         length (queue (snd (dispatch l w (py ''add'') args st)))
           = length (queue st) + length (filter (\<lambda>p. p \<notin> set (queue st)) found) \<and>
         length (filter (\<lambda>p. p \<notin> set (queue st)) found) \<le> length found \<and>
         ((\<exists>p\<in>set found. p \<in> set (queue st)) \<longrightarrow>
            length (filter (\<lambda>p. p \<notin> set (queue st)) found) < length found)"
proof -
  have "out (snd (dispatch l w (py ''add'') args st))
      = out st @ [py ''Added '' @ str_int (int (length found)) @ py '' files'']"
    unfolding dispatch_add using assms by (simp del: filter_filter)
  moreover have "length (queue (snd (dispatch l w (py ''add'') args st)))
      = length (queue st) + length (filter (\<lambda>p. p \<notin> set (queue st)) found)"
    unfolding queue_dispatch_add using assms(2) by simp
  moreover have "(\<exists>p\<in>set found. p \<in> set (queue st)) \<longrightarrow>
      length (filter (\<lambda>p. p \<notin> set (queue st)) found) < length found"
    by (auto intro: length_filter_less)
  ultimately show ?thesis
    by simp
qed

theorem added_count_is_found_count_witness:
  "[py ''*''] \<noteq> [] \<and>
   filter (supported example_lib) (discover_paths example_world [py ''*''])
     = [py ''/w/a.pdf'', py ''/w/B.DOCX'', py ''/w/t.xlsx''] \<and>
   out (snd (dispatch example_lib example_world (py ''add'') [py ''*'']
              \<lparr>queue = [py ''/w/a.pdf''], out = []\<rparr>)) = [py ''Added 3 files''] \<and>
   length (queue (snd (dispatch example_lib example_world (py ''add'') [py ''*'']
              \<lparr>queue = [py ''/w/a.pdf''], out = []\<rparr>))) = 1 + 2 \<and>
   length (filter (\<lambda>p. p \<notin> set (queue \<lparr>queue = [py ''/w/a.pdf''], out = []\<rparr>))
             [py ''/w/a.pdf'', py ''/w/B.DOCX'', py ''/w/t.xlsx'']) < 3"
proof -
  have f: "[py ''/w/a.pdf'', py ''/w/B.DOCX'', py ''/w/t.xlsx'']
      = filter (supported example_lib) (discover_paths example_world [py ''*''])"
    by (simp add: eval_simps)
  have n: "[py ''/w/a.pdf'', py ''/w/B.DOCX'', py ''/w/t.xlsx''] \<noteq> []"
    by simp
  have a: "[py ''*''] \<noteq> []"
    by simp
  have q: "\<exists>p\<in>set [py ''/w/a.pdf'', py ''/w/B.DOCX'', py ''/w/t.xlsx''].
      p \<in> set (queue \<lparr>queue = [py ''/w/a.pdf''], out = []\<rparr>)"
    by simp
  have c: "length (filter (\<lambda>p. p \<notin> set (queue \<lparr>queue = [py ''/w/a.pdf''], out = []\<rparr>))
      [py ''/w/a.pdf'', py ''/w/B.DOCX'', py ''/w/t.xlsx'']) = 2"
    by (simp add: py_def)
  have t: "py ''Added '' @ str_int (int (length [py ''/w/a.pdf'', py ''/w/B.DOCX'', py ''/w/t.xlsx'']))
      @ py '' files'' = py ''Added 3 files''"
    by (simp add: py_def str_int_def str_nat.simps)
  show ?thesis
    using added_count_is_found_count [OF a f n, of "\<lparr>queue = [py ''/w/a.pdf''], out = []\<rparr>"]
      q c t f [symmetric]
    by simp
qed

section \<open>Properties of the start-up\<close>

text \<open>
  C8: the check reads \<open>os.environ\<close> as \<open>load_dotenv()\<close> leaves it. When
  \<open>ANTHROPIC_API_KEY\<close> is not in it, the program prints the error line and nothing else
  (the command loop, which starts by printing its banner, is never entered) and exits with
  status 1. When the variable is there, the command loop runs: the output is that of
  \<open>main\<close>, beginning with the banner.
\<close>

theorem missing_credential_is_fatal:
  "(load_dotenv dotenv environ (py ''ANTHROPIC_API_KEY'') = None \<longrightarrow>
      program dotenv environ l inputs = (Exit 1, [py ''ERROR: Set ANTHROPIC_API_KEY''])) \<and>
   (load_dotenv dotenv environ (py ''ANTHROPIC_API_KEY'') \<noteq> None \<longrightarrow>
      snd (program dotenv environ l inputs) = out (snd (main l inputs)) \<and>
      prefix banner (snd (program dotenv environ l inputs)) \<and>
      fst (program dotenv environ l inputs)
        = (case fst (main l inputs) of Raise e \<Rightarrow> Uncaught e | _ \<Rightarrow> Exit 0))"
  using out_main [of l inputs]
  by (auto simp: program_def Let_def split: prod.splits control.splits)

theorem missing_credential_is_fatal_witness:
  "load_dotenv Map.empty Map.empty (py ''ANTHROPIC_API_KEY'') = None \<and>
   program Map.empty Map.empty example_lib [(example_world, py ''add *'')]
     = (Exit 1, [py ''ERROR: Set ANTHROPIC_API_KEY'']) \<and>
   load_dotenv [py ''ANTHROPIC_API_KEY'' \<mapsto> py ''sk''] Map.empty (py ''ANTHROPIC_API_KEY'') \<noteq> None \<and>
   program [py ''ANTHROPIC_API_KEY'' \<mapsto> py ''sk''] Map.empty example_lib
       [(example_world, py ''add *'')]
     = (Exit 0, banner @ [py ''Added 3 files'', LF # py ''Bye.''])"
proof -
  have absent: "load_dotenv Map.empty Map.empty (py ''ANTHROPIC_API_KEY'') = None"
    by (simp add: load_dotenv_def)
  have present:
    "load_dotenv [py ''ANTHROPIC_API_KEY'' \<mapsto> py ''sk''] Map.empty (py ''ANTHROPIC_API_KEY'') \<noteq> None"
    by (simp add: load_dotenv_def)
  have m: "main example_lib [(example_world, py ''add *'')]
     = (Break, \<lparr>queue = [py ''/w/a.pdf'', py ''/w/B.DOCX'', py ''/w/t.xlsx''],
                out = banner @ [py ''Added 3 files'', LF # py ''Bye.'']\<rparr>)"
    by (simp add: main_def eval_simps)
  show ?thesis
    using absent present
      missing_credential_is_fatal [of Map.empty Map.empty example_lib
        "[(example_world, py ''add *'')]"]
      missing_credential_is_fatal [of "[py ''ANTHROPIC_API_KEY'' \<mapsto> py ''sk'']" Map.empty
        example_lib "[(example_world, py ''add *'')]"]
    by (simp add: m prod_eq_iff)
qed

end
